theory Spec2Isabelle
  imports Main
begin

section \<open>Shared Python vocabulary\<close>

text \<open>
  The monitor is one Python class, \<open>SVNMonitor\<close>, in \<open>src/svn_monitor.py\<close>. Its methods
  are embedded as HOL functions. Everything the methods obtain from outside the
  program (the SMTP server, the \<open>svn\<close> subprocess, the XML library, the wall clock, the
  revision file) is an explicit argument, so that each theorem holds for every
  behaviour of that collaborator.
\<close>

text \<open>
  \<open>str.isspace\<close> on the characters of one byte: the ASCII white space, the four
  separators \<open>0x1c\<close> to \<open>0x1f\<close>, NEL and the no-break space.
\<close>

definition isspace :: "char \<Rightarrow> bool" where
  "isspace c = (of_char c \<in> {9, 10, 11, 12, 13, 28, 29, 30, 31, 32, 133, 160 :: nat})"

text \<open>\<open>s.strip()\<close>\<close>

definition strip :: "string \<Rightarrow> string" where
  "strip s = rev (dropWhile isspace (rev (dropWhile isspace s)))"

text \<open>A section of the \<open>configparser\<close> object: option name to value.\<close>

type_synonym cfg_section = "string \<rightharpoonup> string"

text \<open>\<open>section.get(key, default)\<close>\<close>

definition sec_get :: "cfg_section \<Rightarrow> string \<Rightarrow> string \<Rightarrow> string" where
  "sec_get sec k d = (case sec k of None \<Rightarrow> d | Some v \<Rightarrow> v)"

text \<open>
  The exceptions the dispatcher tells apart. \<open>SMTPAuthenticationError\<close> is a subclass
  of \<open>SMTPException\<close>; \<open>OtherException\<close> stands for every exception outside the
  \<open>smtplib\<close> hierarchy (\<open>KeyError\<close>, \<open>ValueError\<close>, \<open>AttributeError\<close>,
  \<open>ConnectionRefusedError\<close>, \<open>socket.timeout\<close>, ...).
\<close>

datatype exn = SMTPAuthenticationError | SMTPException | OtherException

text \<open>What a Python call does: return a value, fall off its end, or raise.\<close>

datatype 'a py_ret = Returned 'a | ReturnedNone | Raised exn

section \<open>LogParser: \<open>SVNMonitor._parse_svn_log\<close>\<close>

subsection \<open>\<open>xml.etree.ElementTree\<close>\<close>

text \<open>
  An \<open>Element\<close>: tag, attribute dictionary, text (\<open>None\<close> when absent) and children.
\<close>

datatype element =
  Element (tag: string) (attrib: "(string \<times> string) list") (elem_text: "string option")
    (children: "element list")

text \<open>\<open>elem.get(key)\<close>, \<open>None\<close> when the attribute is absent.\<close>

definition attr_get :: "element \<Rightarrow> string \<Rightarrow> string option" where
  "attr_get e k = map_of (attrib e) k"

text \<open>\<open>elem.find(t)\<close>: the first child with tag \<open>t\<close>.\<close>

definition find_child :: "element \<Rightarrow> string \<Rightarrow> element option" where
  "find_child e t = List.find (\<lambda>c. tag c = t) (children e)"

text \<open>\<open>elem.findall(t)\<close>: the children with tag \<open>t\<close>, in document order.\<close>

definition findall_children :: "element \<Rightarrow> string \<Rightarrow> element list" where
  "findall_children e t = filter (\<lambda>c. tag c = t) (children e)"

text \<open>All proper descendants, in document order.\<close>

fun descendants :: "element \<Rightarrow> element list" where
  "descendants (Element t a x cs) = concat (map (\<lambda>c. c # descendants c) cs)"

text \<open>\<open>elem.findall('.//t')\<close>: the descendants with tag \<open>t\<close>, in document order.\<close>

definition findall_desc :: "element \<Rightarrow> string \<Rightarrow> element list" where
  "findall_desc e t = filter (\<lambda>c. tag c = t) (descendants e)"

subsection \<open>Strings\<close>

definition startswith :: "string \<Rightarrow> string \<Rightarrow> bool" where
  "startswith s p = (take (length p) s = p)"

text \<open>\<open>p in s\<close>\<close>

fun contains :: "string \<Rightarrow> string \<Rightarrow> bool" where
  "contains [] p = (p = [])"
| "contains (c # s) p = (startswith (c # s) p \<or> contains s p)"

text \<open>\<open>s.find(c)\<close>: the index of the first \<open>c\<close>, or \<open>-1\<close>.\<close>

fun str_find :: "string \<Rightarrow> char \<Rightarrow> int" where
  "str_find [] c = -1"
| "str_find (x # s) c =
     (if x = c then 0 else (let r = str_find s c in if r < 0 then -1 else r + 1))"

text \<open>\<open>s.replace('Z', '+00:00')\<close>\<close>

definition replace_Z :: "string \<Rightarrow> string" where
  "replace_Z s = concat (map (\<lambda>c. if c = CHR ''Z'' then ''+00:00'' else [c]) s)"

subsection \<open>What the parser takes from outside\<close>

text \<open>
  The library calls: \<open>int_of s\<close> is \<open>int(s)\<close> (\<open>None\<close> when it raises \<open>ValueError\<close>);
  \<open>fromstring s\<close> is \<open>ET.fromstring(s)\<close>, \<open>Inl m\<close> when it raises \<open>ParseError\<close> with
  message \<open>m\<close>; \<open>tostring e\<close> is \<open>ET.tostring(e, encoding='unicode')\<close>;
  \<open>display_date s\<close> is \<open>datetime.fromisoformat(s).strftime('%Y-%m-%d %H:%M:%S')\<close>,
  \<open>None\<close> when it raises.
\<close>

record library =
  int_of :: "string \<Rightarrow> int option"
  fromstring :: "string \<Rightarrow> string + element"
  tostring :: "element \<Rightarrow> string"
  display_date :: "string \<Rightarrow> string option"

text \<open>
  The wall clock: \<open>now_str i\<close> is what \<open>get_beijing_time_str()\<close> returns while the
  \<open>i\<close>-th log entry is processed, \<open>now_iso\<close> is \<open>get_beijing_time().isoformat()\<close> in
  the handlers at the end of \<open>_parse_svn_log\<close>.
\<close>

record clock =
  now_str :: "nat \<Rightarrow> string"
  now_iso :: string

subsection \<open>Change records\<close>

record path_change =
  path :: string
  action :: string

record change_record =
  revision :: int
  author :: "string option"
  date :: string
  message :: string
  changed_paths :: "path_change list"
  repository :: string

datatype parse_exn = ParseError string | ValueError | UnboundLocalError

subsection \<open>The parser\<close>

text \<open>
  The \<open>try: root = ET.fromstring(xml_log)\<close> statement with its \<open>except ParseError\<close>
  handler. \<open>Inr root\<close>: \<open>root\<close> is bound. \<open>Inl (ParseError m)\<close>: a \<open>fromstring\<close> inside
  the handler raised. \<open>Inl UnboundLocalError\<close>: the handler ended without binding
  \<open>root\<close>, so the next statement, which reads \<open>root.tag\<close>, raises.
\<close>

definition wrap_log :: "string \<Rightarrow> string" where
  "wrap_log s = ''<log>'' @ s @ ''</log>''"

definition recover_root :: "library \<Rightarrow> string \<Rightarrow> parse_exn + element" where
  "recover_root lib xml_log =
     (case fromstring lib xml_log of
        Inr root \<Rightarrow> Inr root
      | Inl e \<Rightarrow>
         (if contains e ''XML or text declaration not at start of entity'' then
            (let first_tag_pos = str_find xml_log (CHR ''<'') in
             if first_tag_pos > 0 then
               (let xml_log1 = drop (nat first_tag_pos) xml_log in
                case fromstring lib xml_log1 of
                  Inr root \<Rightarrow> Inr root
                | Inl _ \<Rightarrow>
                   (let xml_log2 = (if \<not> startswith xml_log1 ''<log''
                                    then wrap_log xml_log1 else xml_log1) in
                    case fromstring lib xml_log2 of
                      Inr root \<Rightarrow> Inr root
                    | Inl m \<Rightarrow> Inl (ParseError m)))
             else
               (let xml_log2 = (if \<not> startswith xml_log ''<log>''
                                then wrap_log xml_log else xml_log) in
                case fromstring lib xml_log2 of
                  Inr root \<Rightarrow> Inr root
                | Inl m \<Rightarrow> Inl (ParseError m)))
          else Inl UnboundLocalError))"

text \<open>
  \<open>root.findall('.//logentry')\<close>, and the direct children when that list is empty.
\<close>

definition logentries :: "element \<Rightarrow> element list" where
  "logentries root =
     (let found = findall_desc root ''logentry'' in
      if found = [] then filter (\<lambda>child. tag child = ''logentry'') (children root)
      else found)"

text \<open>The \<open>date\<close> of an entry: decoded, or the wall clock.\<close>

definition entry_date :: "library \<Rightarrow> clock \<Rightarrow> nat \<Rightarrow> element \<Rightarrow> string" where
  "entry_date lib clk i logentry =
     (case find_child logentry ''date'' of
        None \<Rightarrow> now_str clk i
      | Some date_elem \<Rightarrow>
         (case elem_text date_elem of
            None \<Rightarrow> now_str clk i
          | Some t \<Rightarrow>
             (if t = [] then now_str clk i
              else (case display_date lib (replace_Z t) of
                      Some d \<Rightarrow> d
                    | None \<Rightarrow> now_str clk i))))"

definition entry_paths :: "element \<Rightarrow> path_change list" where
  "entry_paths logentry =
     (case find_child logentry ''paths'' of
        None \<Rightarrow> []
      | Some paths_elem \<Rightarrow>
          concat (map (\<lambda>p.
            (let action = (case attr_get p ''action'' of None \<Rightarrow> ''M'' | Some a \<Rightarrow> a);
                 path_name = (case elem_text p of None \<Rightarrow> '''' | Some t \<Rightarrow> t)
             in if strip path_name \<noteq> []
                then [\<lparr>path = path_name, action = action\<rparr>] else []))
            (findall_children paths_elem ''path'')))"

text \<open>\<open>int(logentry.get('revision', 0))\<close>, \<open>None\<close> when \<open>int\<close> raises \<open>ValueError\<close>.\<close>

definition entry_revision :: "library \<Rightarrow> element \<Rightarrow> int option" where
  "entry_revision lib logentry =
     (case attr_get logentry ''revision'' of
        None \<Rightarrow> Some 0
      | Some r \<Rightarrow> int_of lib r)"

text \<open>
  The body of the \<open>try\<close> inside the loop over the entries. The one statement of it
  that can raise is the first, which reads the revision.
\<close>

definition parse_entry ::
  "library \<Rightarrow> clock \<Rightarrow> string \<Rightarrow> nat \<Rightarrow> element \<Rightarrow> parse_exn + change_record" where
  "parse_entry lib clk repo_name i logentry =
     (case entry_revision lib logentry of
        None \<Rightarrow> Inl ValueError
      | Some rev_no \<Rightarrow>
          Inr \<lparr>revision = rev_no,
               author = (case find_child logentry ''author'' of
                           None \<Rightarrow> Some ''unknown''
                         | Some author_elem \<Rightarrow> elem_text author_elem),
               date = entry_date lib clk i logentry,
               message = (case find_child logentry ''msg'' of
                            None \<Rightarrow> ''''
                          | Some msg_elem \<Rightarrow>
                             (case elem_text msg_elem of
                                None \<Rightarrow> ''''
                              | Some t \<Rightarrow> if t = [] then '''' else strip t)),
               changed_paths = entry_paths logentry,
               repository = repo_name\<rparr>)"

text \<open>
  \<open>for i, logentry in enumerate(logentries)\<close>: an entry whose body raises is logged
  and skipped.
\<close>

fun parse_entries ::
  "library \<Rightarrow> clock \<Rightarrow> string \<Rightarrow> nat \<Rightarrow> element list \<Rightarrow> change_record list" where
  "parse_entries lib clk repo_name i [] = []"
| "parse_entries lib clk repo_name i (logentry # rest) =
     (case parse_entry lib clk repo_name i logentry of
        Inr change \<Rightarrow> change # parse_entries lib clk repo_name (Suc i) rest
      | Inl _ \<Rightarrow> parse_entries lib clk repo_name (Suc i) rest)"

text \<open>The record the two handlers at the end of \<open>_parse_svn_log\<close> return.\<close>

definition failure_record :: "clock \<Rightarrow> string \<Rightarrow> string \<Rightarrow> change_record" where
  "failure_record clk msg repo_name =
     \<lparr>revision = 0, author = Some ''unknown'', date = now_iso clk, message = msg,
      changed_paths = [], repository = repo_name\<rparr>"

definition parse_svn_log :: "library \<Rightarrow> clock \<Rightarrow> string \<Rightarrow> string \<Rightarrow> change_record list" where
  "parse_svn_log lib clk xml_log repo_name =
     (if xml_log = [] \<or> strip xml_log = [] then []
      else
        (case recover_root lib (strip xml_log) of
           Inr root \<Rightarrow> parse_entries lib clk repo_name 0 (logentries root)
         | Inl (ParseError m) \<Rightarrow> [failure_record clk ''XML parsing error'' repo_name]
         | Inl _ \<Rightarrow> [failure_record clk ''Unknown error parsing log'' repo_name]))"


subsection \<open>Vocabulary of the parser's properties\<close>

text \<open>An entry the loop keeps: reading its revision does not raise.\<close>

definition parseable :: "library \<Rightarrow> element \<Rightarrow> bool" where
  "parseable lib logentry = (entry_revision lib logentry \<noteq> None)"

text \<open>An entry whose \<open>date\<close> child has a text that the library decodes.\<close>

definition date_decodable :: "library \<Rightarrow> element \<Rightarrow> bool" where
  "date_decodable lib logentry =
     (case find_child logentry ''date'' of
        None \<Rightarrow> False
      | Some date_elem \<Rightarrow>
         (case elem_text date_elem of
            None \<Rightarrow> False
          | Some t \<Rightarrow> t \<noteq> [] \<and> display_date lib (replace_Z t) \<noteq> None))"

text \<open>The record the loop appends for the \<open>i\<close>-th entry, when it appends one.\<close>

definition record_of :: "library \<Rightarrow> clock \<Rightarrow> string \<Rightarrow> nat \<times> element \<Rightarrow> change_record" where
  "record_of lib clk repo_name ie = projr (parse_entry lib clk repo_name (fst ie) (snd ie))"

section \<open>NotificationDispatcher: \<open>SVNMonitor._send_email\<close>\<close>

text \<open>
  One connection to the mail server, as the four calls of the loop body see it:
  \<open>SMTP_SSL(...)\<close> (or \<open>SMTP(...)\<close> and \<open>starttls()\<close>), \<open>login\<close>, \<open>send_message\<close>,
  \<open>quit\<close>. Each either succeeds (\<open>None\<close>) or raises.
\<close>

record smtp_session =
  connect_exn :: "exn option"
  login_exn :: "exn option"
  send_exn :: "exn option"
  quit_exn :: "exn option"

text \<open>The mail server: the session the \<open>k\<close>-th pass of the loop gets.\<close>

type_synonym smtp_server = "nat \<Rightarrow> smtp_session"

datatype event = Attempt nat | Sleep nat

text \<open>The message, as far as \<open>_send_email\<close> reads it: \<open>msg['To']\<close>.\<close>

record mail =
  msg_to :: "string option"

definition max_retries :: nat where
  "max_retries = 2"

text \<open>
  \<open>has_credentials\<close>: both options present and both non-blank after \<open>strip()\<close>.
\<close>

definition has_credentials :: "cfg_section \<Rightarrow> bool" where
  "has_credentials email =
     (if email ''username'' \<noteq> None \<and> email ''password'' \<noteq> None
      then strip (sec_get email ''username'' '''') \<noteq> [] \<and>
           strip (sec_get email ''password'' '''') \<noteq> []
      else False)"

text \<open>
  The body of the inner \<open>try\<close> for one pass. \<open>Inl e\<close>: the pass raised \<open>e\<close> into the
  handlers of the loop; \<open>Inr False\<close>: the \<open>login\<close> handler ran (\<open>continue\<close>);
  \<open>Inr True\<close>: the message was sent and the connection closed.
\<close>

definition attempt :: "bool \<Rightarrow> mail \<Rightarrow> smtp_session \<Rightarrow> exn + bool" where
  "attempt has_cred msg s =
     (case connect_exn s of
        Some e \<Rightarrow> Inl e
      | None \<Rightarrow>
         (case (if has_cred then login_exn s else None) of
            Some SMTPAuthenticationError \<Rightarrow> Inr False
          | Some e \<Rightarrow> Inl e
          | None \<Rightarrow>
             (case msg_to msg of
                None \<Rightarrow> Inl OtherException
              | Some recipients_str \<Rightarrow>
                 (case send_exn s of
                    Some e \<Rightarrow> Inl e
                  | None \<Rightarrow>
                     (case quit_exn s of
                        Some e \<Rightarrow> Inl e
                      | None \<Rightarrow> Inr True)))))"

text \<open>
  \<open>while retry_count <= max_retries and not success\<close>. \<open>success\<close> is set only on the
  line before \<open>return True\<close>, so the loop is left by that return, by \<open>break\<close>, or by
  the counter. The result is the value the code after the loop produces
  (\<open>if not success: return False\<close>) together with the events so far.
\<close>

function send_loop ::
  "smtp_server \<Rightarrow> bool \<Rightarrow> mail \<Rightarrow> nat \<Rightarrow> event list \<Rightarrow> bool py_ret \<times> event list" where
  "send_loop server has_cred msg retry_count tr =
     (if retry_count \<le> max_retries then
        (case attempt has_cred msg (server retry_count) of
           Inr True \<Rightarrow> (Returned True, tr @ [Attempt retry_count])
         | Inr False \<Rightarrow>
             send_loop server has_cred msg (retry_count + 1)
               (tr @ [Attempt retry_count, Sleep 2])
         | Inl OtherException \<Rightarrow> (Returned False, tr @ [Attempt retry_count])
         | Inl _ \<Rightarrow>
             send_loop server has_cred msg (retry_count + 1)
               (tr @ [Attempt retry_count, Sleep 2]))
      else (Returned False, tr))"
  by pat_completeness auto
termination
  by (relation "measure (\<lambda>(server, has_cred, msg, retry_count, tr). 3 - retry_count)")
     (auto simp: max_retries_def)

text \<open>
  \<open>_send_email\<close>. The statements before the loop can raise: \<open>self.config['EMAIL']\<close>
  and \<open>['smtp_server']\<close> raise \<open>KeyError\<close> when absent, \<open>int(smtp_port)\<close> raises
  \<open>ValueError\<close> .
  The outer \<open>except Exception\<close> turns every such raise into \<open>return False\<close>.
\<close>

definition send_email_body ::
  "library \<Rightarrow> (string \<rightharpoonup> cfg_section) \<Rightarrow> smtp_server \<Rightarrow> mail
     \<Rightarrow> bool py_ret \<times> event list" where
  "send_email_body lib config server msg =
     (case config ''EMAIL'' of
        None \<Rightarrow> (Raised OtherException, [])
      | Some email \<Rightarrow>
         (case email ''smtp_server'' of
            None \<Rightarrow> (Raised OtherException, [])
          | Some smtp_server \<Rightarrow>
             (case int_of lib (sec_get email ''smtp_port'' ''465'') of
                None \<Rightarrow> (Raised OtherException, [])
              | Some smtp_port \<Rightarrow>
                  send_loop server (has_credentials email) msg 0 [])))"

definition send_email ::
  "library \<Rightarrow> (string \<rightharpoonup> cfg_section) \<Rightarrow> smtp_server \<Rightarrow> mail
     \<Rightarrow> bool py_ret \<times> event list" where
  "send_email lib config server msg =
     (case send_email_body lib config server msg of
        (Raised e, tr) \<Rightarrow> (Returned False, tr)
      | r \<Rightarrow> r)"

definition attempts :: "event list \<Rightarrow> nat list" where
  "attempts tr = concat (map (\<lambda>ev. case ev of Attempt k \<Rightarrow> [k] | Sleep _ \<Rightarrow> []) tr)"

definition sleeps :: "event list \<Rightarrow> nat list" where
  "sleeps tr = concat (map (\<lambda>ev. case ev of Attempt _ \<Rightarrow> [] | Sleep d \<Rightarrow> [d]) tr)"

text \<open>
  The outcomes of a pass that the loop retries: the \<open>login\<close> handler, and an
  \<open>SMTPException\<close> (of which \<open>SMTPAuthenticationError\<close> is one) reaching the loop's
  \<open>except smtplib.SMTPException\<close>.
\<close>

definition transport_failure :: "exn + bool \<Rightarrow> bool" where
  "transport_failure a = (a = Inr False \<or> a = Inl SMTPAuthenticationError \<or> a = Inl SMTPException)"

text \<open>
  The events of \<open>n\<close> consecutive failed passes starting at pass \<open>k\<close>: each pass is
  followed by \<open>time.sleep(2)\<close>.
\<close>

fun retry_trace :: "nat \<Rightarrow> nat \<Rightarrow> event list" where
  "retry_trace k 0 = []"
| "retry_trace k (Suc n) = Attempt k # Sleep 2 # retry_trace (Suc k) n"

text \<open>
  What the loop started at pass \<open>k\<close> does: \<open>n\<close> failed passes, then either the retry
  budget is used up, or pass \<open>k + n\<close> ends the loop by \<open>return True\<close> (\<open>b\<close>) or by
  \<open>break\<close>.
\<close>

definition loop_post ::
  "smtp_server \<Rightarrow> bool \<Rightarrow> mail \<Rightarrow> nat \<Rightarrow> event list \<Rightarrow> nat \<Rightarrow> bool \<Rightarrow> bool" where
  "loop_post server hc msg k tr n b =
     (k + n \<le> 1 + max_retries \<and>
      (\<forall>j < n. transport_failure (attempt hc msg (server (k + j)))) \<and>
      (if k + n = 1 + max_retries
       then \<not> b \<and> send_loop server hc msg k tr = (Returned False, tr @ retry_trace k n)
       else send_loop server hc msg k tr = (Returned b, tr @ retry_trace k n @ [Attempt (k + n)]) \<and>
            attempt hc msg (server (k + n)) = (if b then Inr True else Inl OtherException)))"

section \<open>ChangeAggregator: \<open>SVNMonitor._get_recipients_for_repository\<close>\<close>

text \<open>\<open>sep.join(xs)\<close>\<close>

fun join :: "string \<Rightarrow> string list \<Rightarrow> string" where
  "join sep [] = []"
| "join sep [x] = x"
| "join sep (x # y # ys) = x @ sep @ join sep (y # ys)"

text \<open>\<open>s.split(c)\<close>\<close>

fun split_on :: "char \<Rightarrow> string \<Rightarrow> string list" where
  "split_on c [] = [[]]"
| "split_on c (x # xs) =
     (if x = c then [] # split_on c xs
      else (case split_on c xs of
              w # ws \<Rightarrow> (x # w) # ws
            | [] \<Rightarrow> [[x]]))"

text \<open>
  A Python \<open>dict\<close> as the list of its items in insertion order; \<open>d[k] = v\<close> replaces
  the value of a key that is present and appends a new key.
\<close>

fun dict_set :: "('k \<times> 'v) list \<Rightarrow> 'k \<Rightarrow> 'v \<Rightarrow> ('k \<times> 'v) list" where
  "dict_set [] k v = [(k, v)]"
| "dict_set ((k', v') # d) k v =
     (if k' = k then (k, v) # d else (k', v') # dict_set d k v)"

type_synonym recipients_map = "(string \<times> string list) list"

text \<open>
  The loop of \<open>_load_recipients_from_excel\<close> over the rows of the sheet. A row is the
  pair of its repository cell and its \<open>Recipients\<close> cell, \<open>None\<close> for a cell that
  \<open>pd.notna\<close> rejects. An entry is stored only when at least one address is left after
  splitting at \<open>;\<close>, stripping and dropping the blanks.
\<close>

fun load_recipients ::
  "(string option \<times> string option) list \<Rightarrow> recipients_map \<Rightarrow> recipients_map" where
  "load_recipients [] recipients_mapping = recipients_mapping"
| "load_recipients ((repo_id, recipients_str) # rows) recipients_mapping =
     load_recipients rows
       (case repo_id of
          None \<Rightarrow> recipients_mapping
        | Some rid \<Rightarrow>
           (case recipients_str of
              None \<Rightarrow> recipients_mapping
            | Some rs \<Rightarrow>
               (let recipients = filter (\<lambda>email. email \<noteq> [])
                                   (map strip (split_on (CHR '';'') rs))
                in if recipients \<noteq> []
                   then dict_set recipients_mapping (strip rid) recipients
                   else recipients_mapping)))"

text \<open>\<open>all_excel_recipients\<close>: the set built by the \<open>update\<close> loop.\<close>

definition all_excel_recipients :: "recipients_map \<Rightarrow> string set" where
  "all_excel_recipients recipients_mapping =
     (\<Union>item \<in> set recipients_mapping. set (snd item))"

text \<open>
  \<open>_get_recipients_for_repository\<close>. \<open>set_iter s\<close> is the list of the elements of the
  Python set \<open>s\<close> in the order in which \<open>join\<close> iterates over it.
\<close>

definition get_recipients_for_repository ::
  "(string set \<Rightarrow> string list) \<Rightarrow> recipients_map \<Rightarrow> (string \<times> string) list \<Rightarrow> cfg_section
     \<Rightarrow> string \<Rightarrow> string" where
  "get_recipients_for_repository set_iter recipients_mapping repo_name_mapping email repo_name =
     (case map_of recipients_mapping repo_name of
        Some recipients \<Rightarrow> join '', '' recipients
      | None \<Rightarrow>
         (case (case map_of repo_name_mapping repo_name of
                  None \<Rightarrow> None
                | Some mapped_repo_name \<Rightarrow>
                    if mapped_repo_name \<noteq> [] then map_of recipients_mapping mapped_repo_name
                    else None) of
            Some recipients \<Rightarrow> join '', '' recipients
          | None \<Rightarrow>
             (case map_of recipients_mapping (''REPO_'' @ repo_name) of
                Some recipients \<Rightarrow> join '', '' recipients
              | None \<Rightarrow>
                 (case (if startswith repo_name ''REPO_''
                        then map_of recipients_mapping (drop 5 repo_name) else None) of
                    Some recipients \<Rightarrow> join '', '' recipients
                  | None \<Rightarrow>
                     (if recipients_mapping \<noteq> [] \<and>
                         all_excel_recipients recipients_mapping \<noteq> {}
                      then join '', '' (set_iter (all_excel_recipients recipients_mapping))
                      else sec_get email ''to_emails'' '''')))))"

subsection \<open>The resolution order in the words of the specification\<close>

text \<open>
  The recipients a source yields for a key, joined; the empty string when the key has
  no entry.
\<close>

definition source_for :: "recipients_map \<Rightarrow> string \<Rightarrow> string" where
  "source_for recipients_mapping key =
     (case map_of recipients_mapping key of None \<Rightarrow> [] | Some rs \<Rightarrow> join '', '' rs)"

text \<open>
  The five configured sources in the order of the specification: exact identifier,
  display-name alias, identifier with the prefix added, identifier with the prefix
  stripped, union of all configured recipients.
\<close>

definition sources_in_order ::
  "(string set \<Rightarrow> string list) \<Rightarrow> recipients_map \<Rightarrow> (string \<times> string) list \<Rightarrow> string
     \<Rightarrow> string list" where
  "sources_in_order set_iter recipients_mapping repo_name_mapping repo_name =
     [source_for recipients_mapping repo_name,
      (case map_of repo_name_mapping repo_name of
         None \<Rightarrow> []
       | Some alias \<Rightarrow> source_for recipients_mapping alias),
      source_for recipients_mapping (''REPO_'' @ repo_name),
      (if startswith repo_name ''REPO_''
       then source_for recipients_mapping (drop 5 repo_name) else []),
      join '', '' (set_iter (all_excel_recipients recipients_mapping))]"

text \<open>The first non-empty result, and the global default list when there is none.\<close>

definition resolve_in_order ::
  "(string set \<Rightarrow> string list) \<Rightarrow> recipients_map \<Rightarrow> (string \<times> string) list \<Rightarrow> cfg_section
     \<Rightarrow> string \<Rightarrow> string" where
  "resolve_in_order set_iter recipients_mapping repo_name_mapping email repo_name =
     (case List.find (\<lambda>s. s \<noteq> [])
             (sources_in_order set_iter recipients_mapping repo_name_mapping repo_name) of
        Some s \<Rightarrow> s
      | None \<Rightarrow> sec_get email ''to_emails'' '''')"

text \<open>
  What the loader guarantees of a recipients mapping: every entry holds at least one
  address and no address is blank.
\<close>

definition loaded :: "recipients_map \<Rightarrow> bool" where
  "loaded recipients_mapping =
     (\<forall>item \<in> set recipients_mapping. snd item \<noteq> [] \<and> [] \<notin> set (snd item))"

section \<open>RepositoryClient: \<open>SVNMonitor._run_svn_command\<close> and \<open>_try_svn_cleanup\<close>\<close>

text \<open>\<open>str.lower\<close> on the characters of one byte.\<close>

definition lower_char :: "char \<Rightarrow> char" where
  "lower_char c =
     (let n = (of_char c :: nat) in
      if (65 \<le> n \<and> n \<le> 90) \<or> (192 \<le> n \<and> n \<le> 222 \<and> n \<noteq> 215)
      then char_of (n + 32) else c)"

definition lower :: "string \<Rightarrow> string" where
  "lower s = map lower_char s"

text \<open>
  What one \<open>subprocess.run(..., check=True)\<close> does: it completes with a standard
  output (\<open>None\<close> when the output is not empty and neither decoding of it succeeds),
  or raises \<open>CalledProcessError\<close> with the decoded standard error, or raises something
  else (\<open>FileNotFoundError\<close>, \<open>PermissionError\<close>, ...).
\<close>

datatype proc_result =
  Completed "string option"
| CalledProcessError string
| ProcessFailure

text \<open>
  The world outside: \<open>proc k\<close> is the result of the \<open>k\<close>-th call of \<open>subprocess.run\<close>
  made so far (calls are counted from 0, the \<open>svn\<close> command and \<open>svn cleanup\<close>
  alike); after \<open>k\<close> calls, \<open>wc_ok k\<close> tells whether the working directory exists and
  holds \<open>.svn\<close>, and \<open>locks_removed k\<close> is what \<open>_remove_svn_locks_manually\<close> returns.
\<close>

record svn_world =
  proc :: "nat \<Rightarrow> proc_result"
  wc_ok :: "nat \<Rightarrow> bool"
  locks_removed :: "nat \<Rightarrow> bool"

datatype svn_event = Command | Cleanup

text \<open>
  \<open>_try_svn_cleanup\<close>, started after \<open>n\<close> calls. The result is the value returned or
  the exception raised, the number of calls made, and the calls so far. The second
  \<open>subprocess.run\<close> stands inside the \<open>except CalledProcessError\<close> handler and has a
  handler of its own for \<open>CalledProcessError\<close> only: any other exception it raises
  leaves the method.
\<close>

definition try_svn_cleanup ::
  "svn_world \<Rightarrow> string option \<Rightarrow> nat \<Rightarrow> svn_event list \<Rightarrow> bool py_ret \<times> nat \<times> svn_event list" where
  "try_svn_cleanup w working_dir n tr =
     (if working_dir = None \<or> working_dir = Some [] then (Returned False, n, tr)
      else if \<not> wc_ok w n then (Returned False, n, tr)
      else
        (case proc w n of
           Completed _ \<Rightarrow> (Returned True, n + 1, tr @ [Cleanup])
         | ProcessFailure \<Rightarrow> (Returned False, n + 1, tr @ [Cleanup])
         | CalledProcessError error_message \<Rightarrow>
             (if contains (lower error_message) ''locked'' then
                (if locks_removed w (n + 1) then
                   (case proc w (n + 1) of
                      Completed _ \<Rightarrow> (Returned True, n + 2, tr @ [Cleanup, Cleanup])
                    | CalledProcessError _ \<Rightarrow> (Returned False, n + 2, tr @ [Cleanup, Cleanup])
                    | ProcessFailure \<Rightarrow> (Raised OtherException, n + 2, tr @ [Cleanup, Cleanup]))
                 else (Returned False, n + 1, tr @ [Cleanup]))
              else (Returned False, n + 1, tr @ [Cleanup]))))"

text \<open>\<open>'locked' in error_message.lower() or 'cleanup' in error_message.lower()\<close>\<close>

definition lock_related :: "string \<Rightarrow> bool" where
  "lock_related error_message =
     (contains (lower error_message) ''locked'' \<or> contains (lower error_message) ''cleanup'')"

text \<open>
  \<open>_run_svn_command\<close>, started after \<open>n\<close> calls. The arguments that only build the
  command line (the credentials, \<open>is_retry\<close>, \<open>output_raw_log\<close>) are left out: they do
  not enter any test of the method. On a lock-related error the method runs the
  cleanup and then, whether or not the cleanup succeeded, calls itself; the call is
  wrapped in \<open>try ... except Exception: return ''\<close>. Nothing in the method counts
  these calls, so the function is partial: \<open>None\<close> is a run whose retries do not end
  by themselves.
\<close>

partial_function (option) run_svn_command ::
  "svn_world \<Rightarrow> string option \<Rightarrow> nat \<Rightarrow> svn_event list
     \<Rightarrow> (string py_ret \<times> nat \<times> svn_event list) option" where
  "run_svn_command w working_dir n tr =
     (case proc w n of
        Completed out \<Rightarrow>
          Some (Returned (case out of Some s \<Rightarrow> strip s | None \<Rightarrow> []), n + 1, tr @ [Command])
      | ProcessFailure \<Rightarrow> Some (Returned [], n + 1, tr @ [Command])
      | CalledProcessError error_message \<Rightarrow>
          (if lock_related error_message then
             (case try_svn_cleanup w working_dir (n + 1) (tr @ [Command]) of
                (Raised e, n', tr') \<Rightarrow> Some (Raised e, n', tr')
              | (_, n', tr') \<Rightarrow>
                  Option.bind (run_svn_command w working_dir n' tr')
                    (\<lambda>r. case r of
                           (Raised e, n'', tr'') \<Rightarrow> Some (Returned [], n'', tr'')
                         | _ \<Rightarrow> Some r))
           else Some (Returned [], n + 1, tr @ [Command])))"

text \<open>The number of times the \<open>svn\<close> command itself was executed.\<close>

definition executions :: "svn_event list \<Rightarrow> nat" where
  "executions tr = length (filter (\<lambda>ev. ev = Command) tr)"

section \<open>NotificationDispatcher: \<open>SVNMonitor.send_email_notification\<close>\<close>

text \<open>
  The statements of \<open>send_email_notification\<close> between the credential check and the
  call of \<open>_send_email\<close> (grouping by repository, resolving the recipients, subject
  and body) are the argument \<open>compose\<close>: it returns the message, or leaves by the bare
  \<open>return\<close> of the grouping handler, or raises. The last component of the result
  lists the operations the method hands to \<open>log_operation\<close>, as pairs of operation
  type and message; the number of changes and the text of the exception, which the
  source appends to two of the messages, are left out.
\<close>

definition send_email_notification ::
  "library \<Rightarrow> (string \<rightharpoonup> cfg_section) \<Rightarrow> (change_record list \<Rightarrow> mail py_ret) \<Rightarrow> smtp_server
     \<Rightarrow> change_record list \<Rightarrow> bool py_ret \<times> event list \<times> (string \<times> string) list" where
  "send_email_notification lib config compose server changes =
     (if changes = [] then (Returned False, [], [])
      else
        (let attempt_logged = [(''NOTIFICATION'', ''Attempting to send email notification'')] in
         case config ''EMAIL'' of
           None \<Rightarrow>
             (Returned False, [], attempt_logged @
                [(''WARNING'', ''Email notification skipped: incomplete email configuration'')])
         | Some email \<Rightarrow>
             (if email ''smtp_server'' = None \<or> email ''from_email'' = None \<or>
                 email ''to_emails'' = None
              then (Returned False, [], attempt_logged @
                [(''WARNING'', ''Email notification skipped: incomplete email configuration'')])
              else if \<not> has_credentials email
              then (Returned False, [], attempt_logged @
                [(''INFO'',
                  ''Email notification skipped: No valid SMTP credentials configured'')])
              else
                (case compose changes of
                   Raised e \<Rightarrow>
                     (Returned False, [], attempt_logged @
                        [(''ERROR'', ''Failed to send email notification'')])
                 | ReturnedNone \<Rightarrow> (ReturnedNone, [], attempt_logged)
                 | Returned msg \<Rightarrow>
                     (case send_email lib config server msg of
                        (r, tr) \<Rightarrow> (r, tr, attempt_logged))))))"

section \<open>Scheduler: \<open>SVNMonitor.run\<close> and \<open>SVNMonitor.process_commit\<close>\<close>

subsection \<open>The revision file\<close>

text \<open>
  \<open>last_revisions.json\<close>: absent, unreadable (\<open>json.load\<close> raises), or a JSON object
  from repository names to revisions.
\<close>

datatype revision_file = Missing | Corrupt | Stored "string \<rightharpoonup> int"

type_synonym repositories = "(string \<times> cfg_section) list"

text \<open>
  \<open>_get_last_recorded_revisions\<close>: the recorded revision of every configured
  repository, 0 for a repository without a record, and nothing for any other name.
\<close>

definition get_last_recorded_revisions :: "repositories \<Rightarrow> revision_file \<Rightarrow> (string \<rightharpoonup> int)" where
  "get_last_recorded_revisions repos file =
     (\<lambda>repo_name.
        if repo_name \<in> fst ` set repos then
          (case file of
             Stored loaded_revisions \<Rightarrow>
               (case loaded_revisions repo_name of Some v \<Rightarrow> Some v | None \<Rightarrow> Some 0)
           | _ \<Rightarrow> Some 0)
        else None)"

text \<open>
  \<open>_save_last_revisions\<close>: the file is replaced by the dictionary; when writing
  raises, the exception is logged and the file is taken to stay as it was.
\<close>

definition save_last_revisions :: "bool \<Rightarrow> revision_file \<Rightarrow> (string \<rightharpoonup> int) \<Rightarrow> revision_file" where
  "save_last_revisions writable file revisions = (if writable then Stored revisions else file)"

text \<open>\<open>d.get(k, 0)\<close>\<close>

definition get0 :: "(string \<rightharpoonup> int) \<Rightarrow> string \<Rightarrow> int" where
  "get0 d k = (case d k of None \<Rightarrow> 0 | Some v \<Rightarrow> v)"

text \<open>\<open>repo_config.get('notify_on_changes', 'True').lower() == 'true'\<close>\<close>

definition notify_on_changes :: "cfg_section \<Rightarrow> bool" where
  "notify_on_changes repo_config =
     (lower (sec_get repo_config ''notify_on_changes'' ''True'') = ''true'')"

subsection \<open>One cycle of \<open>run\<close>\<close>

text \<open>
  What a cycle takes from outside: \<open>latest name\<close> is the result of
  \<open>get_latest_revision\<close> for the repository (\<open>None\<close> when it raises); \<open>changes_of\<close> is
  \<open>get_changes\<close>, which returns a list in every case; \<open>dispatch\<close> is the outcome of
  \<open>send_email_notification\<close> on a payload; \<open>writable\<close> tells whether writing the
  revision file succeeds.
\<close>

record cycle_env =
  latest :: "string \<Rightarrow> int option"
  changes_of :: "string \<Rightarrow> int \<Rightarrow> int \<Rightarrow> change_record list"
  dispatch :: "change_record list \<Rightarrow> bool py_ret"
  writable :: bool

text \<open>
  The variables of a cycle: \<open>self.last_revisions\<close>, the revision file, \<open>all_changes\<close>,
  \<open>changes_to_update\<close> (repository name to the pair of last and latest revision),
  the names of the repositories whose check raised, and the payloads handed to
  \<open>send_email_notification\<close> since the start of the cycle.
\<close>

record cycle_state =
  last_revisions :: "string \<rightharpoonup> int"
  store :: revision_file
  all_changes :: "change_record list"
  changes_to_update :: "string \<rightharpoonup> int \<times> int"
  errors :: "string list"
  dispatched :: "change_record list list"

text \<open>The body of the loop over the repositories, for one repository.\<close>

definition check_repo :: "cycle_env \<Rightarrow> string \<times> cfg_section \<Rightarrow> cycle_state \<Rightarrow> cycle_state" where
  "check_repo env repo st =
     (case repo of (repo_name, repo_config) \<Rightarrow>
       (case latest env repo_name of
          None \<Rightarrow> st\<lparr>errors := errors st @ [repo_name]\<rparr>
        | Some latest_revision \<Rightarrow>
           (let last_revision = get0 (last_revisions st) repo_name in
            if latest_revision > last_revision then
              (let changes = changes_of env repo_name last_revision latest_revision in
               if notify_on_changes repo_config then
                 st\<lparr>all_changes := all_changes st @ changes,
                    changes_to_update :=
                      (changes_to_update st)(repo_name \<mapsto> (last_revision, latest_revision))\<rparr>
               else
                 st\<lparr>last_revisions := (last_revisions st)(repo_name \<mapsto> latest_revision),
                    store := save_last_revisions (writable env) (store st)
                               ((last_revisions st)(repo_name \<mapsto> latest_revision))\<rparr>)
            else st)))"

fun check_repos :: "cycle_env \<Rightarrow> repositories \<Rightarrow> cycle_state \<Rightarrow> cycle_state" where
  "check_repos env [] st = st"
| "check_repos env (repo # rest) st = check_repos env rest (check_repo env repo st)"

text \<open>
  The start of a cycle: the revisions are read afresh from the file, the lists are
  empty.
\<close>

definition cycle_start :: "repositories \<Rightarrow> revision_file \<Rightarrow> cycle_state" where
  "cycle_start repos file =
     \<lparr>last_revisions = get_last_recorded_revisions repos file, store = file,
      all_changes = [], changes_to_update = Map.empty, errors = [], dispatched = []\<rparr>"

text \<open>
  \<open>temp_revisions\<close>: a copy of \<open>self.last_revisions\<close> with the latest revision of
  every repository of \<open>changes_to_update\<close>.
\<close>

definition temp_revisions :: "(string \<rightharpoonup> int) \<Rightarrow> (string \<rightharpoonup> int \<times> int) \<Rightarrow> (string \<rightharpoonup> int)" where
  "temp_revisions revisions to_update =
     (\<lambda>repo_name. case to_update repo_name of
                     Some info \<Rightarrow> Some (snd info)
                   | None \<Rightarrow> revisions repo_name)"

text \<open>
  The statements after the loop: \<open>if all_changes:\<close> dispatch once and advance, or
  reload. An exception out of \<open>send_email_notification\<close> would leave the cycle for the
  handler of the monitoring loop, with the variables as they are.
\<close>

definition dispatch_phase :: "cycle_env \<Rightarrow> repositories \<Rightarrow> cycle_state \<Rightarrow> cycle_state" where
  "dispatch_phase env repos st =
     (if all_changes st \<noteq> [] then
        (let st1 = st\<lparr>dispatched := dispatched st @ [all_changes st]\<rparr> in
         case dispatch env (all_changes st) of
           Returned True \<Rightarrow>
             (let temp = temp_revisions (last_revisions st) (changes_to_update st) in
              st1\<lparr>last_revisions := temp,
                  store := save_last_revisions (writable env) (store st) temp\<rparr>)
         | Raised e \<Rightarrow> st1
         | _ \<Rightarrow> st1\<lparr>last_revisions := get_last_recorded_revisions repos (store st)\<rparr>)
      else st)"

definition run_cycle :: "cycle_env \<Rightarrow> repositories \<Rightarrow> revision_file \<Rightarrow> cycle_state" where
  "run_cycle env repos file =
     dispatch_phase env repos (check_repos env repos (cycle_start repos file))"

text \<open>The dispatch of a cycle fails: a payload is sent and the answer is not \<open>True\<close>.\<close>

definition dispatch_failed :: "cycle_env \<Rightarrow> repositories \<Rightarrow> revision_file \<Rightarrow> bool" where
  "dispatch_failed env repos file =
     (let payload = all_changes (check_repos env repos (cycle_start repos file)) in
      payload \<noteq> [] \<and> (dispatch env payload = Returned False \<or> dispatch env payload = ReturnedNone))"

subsection \<open>\<open>process_commit\<close>\<close>

text \<open>
  The repository a hook invocation is matched to: the first whose configured
  \<open>repository_path\<close> contains the given path or is contained in it, else the first
  repository, else none.
\<close>

definition find_matching_repo :: "repositories \<Rightarrow> string \<Rightarrow> (string \<times> cfg_section) option" where
  "find_matching_repo repos repository_path =
     (case List.find (\<lambda>repo. case snd repo ''repository_path'' of
                               None \<Rightarrow> False
                             | Some p \<Rightarrow> contains p repository_path \<or> contains repository_path p)
             repos of
        Some repo \<Rightarrow> Some repo
      | None \<Rightarrow> (case repos of [] \<Rightarrow> None | repo # _ \<Rightarrow> Some repo))"

text \<open>
  \<open>process_commit\<close>, on the variables of the monitor (\<open>all_changes\<close>,
  \<open>changes_to_update\<close> and \<open>errors\<close> are not touched). \<open>int(revision)\<close> raising ends the
  method in its handler.
\<close>

definition process_commit ::
  "library \<Rightarrow> cycle_env \<Rightarrow> repositories \<Rightarrow> string \<Rightarrow> string \<Rightarrow> cycle_state \<Rightarrow> cycle_state" where
  "process_commit lib env repos repository_path revision_arg st =
     (case int_of lib revision_arg of
        None \<Rightarrow> st
      | Some rev_no \<Rightarrow>
         (case find_matching_repo repos repository_path of
            None \<Rightarrow> st
          | Some (matching_repo_name, matching_repo) \<Rightarrow>
             (let last_revision = get0 (last_revisions st) matching_repo_name in
              if rev_no > last_revision then
                (let changes = changes_of env matching_repo_name last_revision rev_no;
                     advanced = st\<lparr>last_revisions := (last_revisions st)(matching_repo_name \<mapsto> rev_no),
                                   store := save_last_revisions (writable env) (store st)
                                     ((last_revisions st)(matching_repo_name \<mapsto> rev_no))\<rparr>
                 in if notify_on_changes matching_repo \<and> changes \<noteq> [] then
                      (case dispatch env changes of
                         Returned True \<Rightarrow> advanced\<lparr>dispatched := dispatched st @ [changes]\<rparr>
                       | _ \<Rightarrow> st\<lparr>dispatched := dispatched st @ [changes]\<rparr>)
                    else advanced)
              else st)))"

subsection \<open>Vocabulary of the scheduler's properties\<close>

text \<open>A name none of whose configurations has notifications disabled.\<close>

definition enabled_name :: "repositories \<Rightarrow> string \<Rightarrow> bool" where
  "enabled_name repos name = (\<forall>cfg. (name, cfg) \<in> set repos \<longrightarrow> notify_on_changes cfg)"

text \<open>
  The file and the dictionary in memory hold, for every name with notifications
  enabled, the revision \<open>m0\<close> gives it.
\<close>

definition untouched :: "repositories \<Rightarrow> (string \<rightharpoonup> int) \<Rightarrow> cycle_state \<Rightarrow> bool" where
  "untouched repos m0 st =
     (\<forall>name. enabled_name repos name \<longrightarrow>
        last_revisions st name = m0 name \<and>
        (name \<in> fst ` set repos \<longrightarrow>
           get_last_recorded_revisions repos (store st) name = m0 name \<and> m0 name \<noteq> None))"

text \<open>
  Two states of the loop over the repositories that hold the same revisions for the
  names with notifications enabled, the same payload and the same pending set.
\<close>

definition agree :: "repositories \<Rightarrow> cycle_state \<Rightarrow> cycle_state \<Rightarrow> bool" where
  "agree repos st st' =
     ((\<forall>name. enabled_name repos name \<longrightarrow> last_revisions st name = last_revisions st' name) \<and>
      all_changes st = all_changes st' \<and> changes_to_update st = changes_to_update st')"

section \<open>RepositoryClient: \<open>SVNMonitor._get_paginated_svn_log\<close>\<close>

text \<open>
  The remote repository as the method queries it through \<open>_run_svn_command\<close>:
  \<open>range_log a b\<close> is the output of \<open>svn log URL --xml --verbose -r a:b\<close> and
  \<open>single_log r\<close> that of \<open>svn log URL --xml --verbose -r r\<close>; the output is empty when
  the command failed, and \<open>None\<close> stands for a call that raised.
\<close>

record log_source =
  range_log :: "int \<Rightarrow> int \<Rightarrow> string option"
  single_log :: "int \<Rightarrow> string option"

definition page_size :: int where
  "page_size = 500"

text \<open>
  The body of the \<open>while\<close> loop for the page from \<open>current_start\<close> to \<open>current_end\<close>:
  the outputs it appends to \<open>combined_logs\<close>. An empty page output is replaced by the
  non-empty outputs of the queries for the single revisions of the page.
\<close>

definition fetch_page :: "log_source \<Rightarrow> int \<Rightarrow> int \<Rightarrow> string list" where
  "fetch_page src current_start current_end =
     (case range_log src current_start current_end of
        None \<Rightarrow> []
      | Some log_output \<Rightarrow>
          if log_output \<noteq> [] then [log_output]
          else concat (map (\<lambda>rev_no. case single_log src rev_no of
                                        None \<Rightarrow> []
                                      | Some single \<Rightarrow> if single \<noteq> [] then [single] else [])
                         [current_start..current_end]))"

text \<open>
  \<open>while current_start <= to_revision\<close>. The half second of \<open>time.sleep\<close> after every
  page is not part of the result and is left out.
\<close>

function collect_pages :: "log_source \<Rightarrow> int \<Rightarrow> int \<Rightarrow> string list \<Rightarrow> string list" where
  "collect_pages src current_start to_revision combined_logs =
     (if current_start \<le> to_revision then
        (let current_end = min (current_start + page_size - 1) to_revision in
         collect_pages src (current_end + 1) to_revision
           (combined_logs @ fetch_page src current_start current_end))
      else combined_logs)"
  by pat_completeness auto
termination
  by (relation "measure (\<lambda>(src, current_start, to_revision, combined_logs).
                           nat (to_revision - current_start + 1))")
     (auto simp: page_size_def min_def)

text \<open>
  The entries appended to the new root: for every collected output that parses, its
  \<open>logentry\<close> descendants; an output that does not parse is skipped.
\<close>

definition combine_logs :: "library \<Rightarrow> string list \<Rightarrow> element list" where
  "combine_logs lib combined_logs =
     concat (map (\<lambda>log_xml. case fromstring lib log_xml of
                               Inr log_root \<Rightarrow> findall_desc log_root ''logentry''
                             | Inl _ \<Rightarrow> [])
               combined_logs)"

text \<open>\<open>repo_config.get('repository_path', repo_config.get('url', ''))\<close>\<close>

definition repo_url :: "cfg_section \<Rightarrow> string" where
  "repo_url repo_config = sec_get repo_config ''repository_path'' (sec_get repo_config ''url'' '''')"

definition get_paginated_svn_log ::
  "library \<Rightarrow> log_source \<Rightarrow> cfg_section \<Rightarrow> int \<Rightarrow> int \<Rightarrow> string" where
  "get_paginated_svn_log lib src repo_config from_revision to_revision =
     (if repo_url repo_config = [] then []
      else
        (let combined_logs = collect_pages src from_revision to_revision [] in
         if combined_logs \<noteq> []
         then tostring lib (Element ''log'' [] None (combine_logs lib combined_logs))
         else []))"

subsection \<open>The pages in the words of the specification\<close>

text \<open>
  The consecutive pages of at most 500 revisions that split the range from \<open>s\<close> to \<open>t\<close>.
\<close>

function pages :: "int \<Rightarrow> int \<Rightarrow> (int \<times> int) list" where
  "pages s t = (if s \<le> t then (s, min (s + 499) t) # pages (min (s + 499) t + 1) t else [])"
  by pat_completeness auto
termination
  by (relation "measure (\<lambda>(s, t). nat (t - s + 1))") (auto simp: min_def)

text \<open>
  A history of the repository: the log entries of every revision (none for a
  revision that did not touch the monitored path), none of which has a log entry
  below it.
\<close>

definition flat_history :: "(int \<Rightarrow> element list) \<Rightarrow> int \<Rightarrow> int \<Rightarrow> bool" where
  "flat_history history a b =
     (\<forall>r \<in> {a..b}. \<forall>e \<in> set (history r).
        tag e = ''logentry'' \<and> findall_desc e ''logentry'' = [])"

text \<open>The entries of the revisions from \<open>a\<close> to \<open>b\<close>, in order.\<close>

definition entries_between :: "(int \<Rightarrow> element list) \<Rightarrow> int \<Rightarrow> int \<Rightarrow> element list" where
  "entries_between history a b = concat (map history [a..b])"

text \<open>
  The source answers the query for the single revision \<open>r\<close>: it prints nothing when
  the revision has no entry, and otherwise a document whose entries are those of the
  revision.
\<close>

definition answers_revision ::
  "library \<Rightarrow> log_source \<Rightarrow> (int \<Rightarrow> element list) \<Rightarrow> int \<Rightarrow> bool" where
  "answers_revision lib src history r =
     (case single_log src r of
        None \<Rightarrow> False
      | Some single \<Rightarrow>
          if single = [] then history r = []
          else (case fromstring lib single of
                  Inr root \<Rightarrow> findall_desc root ''logentry'' = history r
                | Inl _ \<Rightarrow> False))"

text \<open>
  The source answers a page: the range query prints a document whose entries are
  those of the page, or it prints nothing and the source answers the query for
  every single revision of the page.
\<close>

definition page_faithful ::
  "library \<Rightarrow> log_source \<Rightarrow> (int \<Rightarrow> element list) \<Rightarrow> int \<times> int \<Rightarrow> bool" where
  "page_faithful lib src history page =
     (case range_log src (fst page) (snd page) of
        None \<Rightarrow> False
      | Some log_output \<Rightarrow>
          if log_output = []
          then (\<forall>r \<in> {fst page..snd page}. answers_revision lib src history r)
          else (case fromstring lib log_output of
                  Inr root \<Rightarrow>
                    findall_desc root ''logentry''
                      = entries_between history (fst page) (snd page)
                | Inl _ \<Rightarrow> False))"

section \<open>Inputs for the examples\<close>

subsection \<open>A configuration and a mail server\<close>

text \<open>A decimal reader standing for \<open>int\<close> in the examples.\<close>

definition decimal :: "string \<Rightarrow> int option" where
  "decimal s = (if s \<noteq> [] \<and> (\<forall>c \<in> set s. of_char c \<in> {48..57::nat})
                then Some (foldl (\<lambda>a c. 10 * a + (of_char c - 48)) 0 s) else None)"

definition demo_email :: cfg_section where
  "demo_email = [''smtp_server'' \<mapsto> ''smtp.example.com'',
      ''from_email'' \<mapsto> ''svn@example.com'', ''to_emails'' \<mapsto> ''dev@example.com'',
      ''username'' \<mapsto> ''svn'', ''password'' \<mapsto> ''secret'']"

definition demo_config :: "string \<rightharpoonup> cfg_section" where
  "demo_config = [''EMAIL'' \<mapsto> demo_email]"

definition no_exn :: smtp_session where
  "no_exn = \<lparr>connect_exn = None, login_exn = None, send_exn = None, quit_exn = None\<rparr>"

definition flaky_server :: smtp_server where
  "flaky_server k = (if k = 0 then no_exn\<lparr>connect_exn := Some SMTPException\<rparr>
                     else no_exn\<lparr>send_exn := Some OtherException\<rparr>)"

definition demo_msg :: mail where
  "demo_msg = \<lparr>msg_to = Some ''dev@example.com''\<rparr>"


subsection \<open>A library and two clocks\<close>

text \<open>
  A log of three entries: the second has a revision attribute that is not a number,
  the third a date that is not in ISO format.
\<close>

definition mixed_xml :: string where
  "mixed_xml = ''<log><logentry revision=\"1\"><author>ann</author><date>2024-01-01T00:00:00Z</date><msg>one</msg><paths><path action=\"A\">/trunk/a.c</path></paths></logentry><logentry revision=\"two\"><author>bob</author></logentry><logentry revision=\"3\"><author>cy</author><date>yesterday</date><msg>three</msg></logentry></log>''"

definition leaf :: "string \<Rightarrow> string \<Rightarrow> element" where
  "leaf t x = Element t [] (Some x) []"

definition entry_one :: element where
  "entry_one = Element ''logentry'' [(''revision'', ''1'')] None
     [leaf ''author'' ''ann'', leaf ''date'' ''2024-01-01T00:00:00Z'', leaf ''msg'' ''one'',
      Element ''paths'' [] None [Element ''path'' [(''action'', ''A'')] (Some ''/trunk/a.c'') []]]"

definition entry_two :: element where
  "entry_two = Element ''logentry'' [(''revision'', ''two'')] None [leaf ''author'' ''bob'']"

definition entry_three :: element where
  "entry_three = Element ''logentry'' [(''revision'', ''3'')] None
     [leaf ''author'' ''cy'', leaf ''date'' ''yesterday'', leaf ''msg'' ''three'']"

definition mixed_root :: element where
  "mixed_root = Element ''log'' [] None [entry_one, entry_two, entry_three]"

text \<open>A log of one entry, with a date in ISO format.\<close>

definition dated_xml :: string where
  "dated_xml = ''<log><logentry revision=\"1\"><author>ann</author><date>2024-01-01T00:00:00Z</date><msg>one</msg><paths><path action=\"A\">/trunk/a.c</path></paths></logentry></log>''"

definition dated_root :: element where
  "dated_root = Element ''log'' [] None [entry_one]"

text \<open>
  A log of three entries whose second entry is not well-formed: its \<open>author\<close> element
  is not closed.
\<close>

definition broken_xml :: string where
  "broken_xml = ''<log><logentry revision=\"1\"><author>ann</author></logentry><logentry revision=\"2\"><author>bob</logentry><logentry revision=\"3\"><author>cy</author></logentry></log>''"

text \<open>
  A stand-in for \<open>ET.fromstring\<close> that knows the two well-formed documents above,
  rejects the third with the message \<open>expat\<close> gives for it, and rejects every other
  text the way \<open>expat\<close> rejects text that is not XML.
\<close>

definition demo_fromstring :: "string \<Rightarrow> string + element" where
  "demo_fromstring s =
     (if s = mixed_xml then Inr mixed_root
      else if s = dated_xml then Inr dated_root
      else if s = broken_xml then Inl ''mismatched tag: line 1, column 95''
      else Inl ''syntax error: line 1, column 0'')"

definition demo_display_date :: "string \<Rightarrow> string option" where
  "demo_display_date s =
     (if s = ''2024-01-01T00:00:00+00:00'' then Some ''2024-01-01 00:00:00'' else None)"

definition demo_lib :: library where
  "demo_lib = \<lparr>int_of = decimal, fromstring = demo_fromstring,
                tostring = (\<lambda>e. ''<log />''), display_date = demo_display_date\<rparr>"

definition morning :: clock where
  "morning = \<lparr>now_str = (\<lambda>i. ''2024-06-01 09:00:00''),
               now_iso = ''2024-06-01T09:00:00+08:00''\<rparr>"

definition evening :: clock where
  "evening = \<lparr>now_str = (\<lambda>i. ''2024-06-01 21:00:00''),
               now_iso = ''2024-06-01T21:00:00+08:00''\<rparr>"

subsection \<open>A recipients sheet\<close>

text \<open>Two rows; the second has no address left after stripping.\<close>

definition demo_rows :: "(string option \<times> string option) list" where
  "demo_rows = [(Some ''REPO_1'', Some ''a@x.com; b@x.com''), (Some ''REPO_2'', Some '' ; '')]"

definition demo_recipients :: recipients_map where
  "demo_recipients = load_recipients demo_rows []"

definition demo_names :: "(string \<times> string) list" where
  "demo_names = [(''Procurement'', ''REPO_9'')]"

text \<open>An iteration order for the sets of addresses of the examples.\<close>

definition demo_set_iter :: "string set \<Rightarrow> string list" where
  "demo_set_iter s = filter (\<lambda>x. x \<in> s) [''b@x.com'', ''a@x.com'']"

subsection \<open>Working copies that stay locked\<close>

definition lock_message :: string where
  "lock_message = ''svn: E155004: Working copy locked''"

text \<open>
  Every call of \<open>subprocess.run\<close> fails with the lock error, the working copy is
  there, and there is no lock file to remove by hand: the world of the third case of
  \<open>test_run_svn_command_with_lock_cleanup\<close>.
\<close>

definition always_locked :: svn_world where
  "always_locked = \<lparr>proc = (\<lambda>k. CalledProcessError lock_message), wc_ok = (\<lambda>k. True),
                     locks_removed = (\<lambda>k. False)\<rparr>"

text \<open>The first \<open>m\<close> calls fail with the lock error, the next one prints \<open>out\<close>.\<close>

definition locked_for :: "nat \<Rightarrow> string \<Rightarrow> svn_world" where
  "locked_for m out =
     \<lparr>proc = (\<lambda>k. if k < m then CalledProcessError lock_message else Completed (Some out)),
      wc_ok = (\<lambda>k. True), locks_removed = (\<lambda>k. False)\<rparr>"

subsection \<open>A monitor without SMTP credentials\<close>

definition detect_only_email :: cfg_section where
  "detect_only_email = [''smtp_server'' \<mapsto> ''smtp.example.com'',
      ''from_email'' \<mapsto> ''svn@example.com'', ''to_emails'' \<mapsto> ''dev@example.com'',
      ''username'' \<mapsto> ''svn'', ''password'' \<mapsto> ''  '']"

definition detect_only_config :: "string \<rightharpoonup> cfg_section" where
  "detect_only_config = [''EMAIL'' \<mapsto> detect_only_email]"

definition demo_change :: change_record where
  "demo_change = \<lparr>revision = 6, author = Some ''ann'', date = ''2024-01-01 00:00:00'',
                   message = ''fix'', changed_paths = [], repository = ''REPO_A''\<rparr>"

definition demo_compose :: "change_record list \<Rightarrow> mail py_ret" where
  "demo_compose changes = Returned demo_msg"

subsection \<open>Two repositories and a revision file\<close>

text \<open>\<open>REPO_A\<close> notifies on changes, \<open>REPO_B\<close> does not; both were recorded at revision 5.\<close>

definition repo_a :: cfg_section where
  "repo_a = [''name'' \<mapsto> ''REPO_A'', ''repository_path'' \<mapsto> ''svn://host/a'',
             ''notify_on_changes'' \<mapsto> ''True'']"

definition repo_b :: cfg_section where
  "repo_b = [''name'' \<mapsto> ''REPO_B'', ''repository_path'' \<mapsto> ''svn://host/b'',
             ''notify_on_changes'' \<mapsto> ''false'']"

definition demo_repos :: repositories where
  "demo_repos = [(''REPO_A'', repo_a), (''REPO_B'', repo_b)]"

definition demo_file :: revision_file where
  "demo_file = Stored [''REPO_A'' \<mapsto> 5, ''REPO_B'' \<mapsto> 5]"

text \<open>
  Both repositories are at revision 7, every range has one change record, and the
  mail cannot be delivered.
\<close>

definition failing_env :: cycle_env where
  "failing_env = \<lparr>latest = (\<lambda>name. Some 7),
                   changes_of = (\<lambda>name from_rev to_rev.
                                   [demo_change\<lparr>revision := to_rev, repository := name\<rparr>]),
                   dispatch = (\<lambda>payload. Returned False), writable = True\<rparr>"

text \<open>
  The \<open>svn log\<close> command prints nothing, so that \<open>get_changes\<close> returns what the parser
  makes of the empty output; the mail server would deliver.
\<close>

definition silent_env :: cycle_env where
  "silent_env = \<lparr>latest = (\<lambda>name. Some 6),
                  changes_of = (\<lambda>name from_rev to_rev. parse_svn_log demo_lib morning [] name),
                  dispatch = (\<lambda>payload. Returned True), writable = True\<rparr>"

subsection \<open>A repository queried in pages\<close>

text \<open>
  Revisions 1 and 501 touched the monitored path. The query for the page from 1 to
  500 prints nothing, the queries for its single revisions answer, and so do the
  queries for the page from 501 to 600 and for the whole range.
\<close>

definition entry_rev :: "string \<Rightarrow> element" where
  "entry_rev r = Element ''logentry'' [(''revision'', r)] None [leaf ''author'' ''ann'']"

definition paged_history :: "int \<Rightarrow> element list" where
  "paged_history r =
     (if r = 1 then [entry_rev ''1''] else if r = 501 then [entry_rev ''501''] else [])"

definition first_xml :: string where
  "first_xml = ''<log><logentry revision=\"1\"><author>ann</author></logentry></log>''"

definition late_xml :: string where
  "late_xml = ''<log><logentry revision=\"501\"><author>ann</author></logentry></log>''"

definition both_xml :: string where
  "both_xml = ''<log><logentry revision=\"1\"><author>ann</author></logentry><logentry revision=\"501\"><author>ann</author></logentry></log>''"

definition both_root :: element where
  "both_root = Element ''log'' [] None [entry_rev ''1'', entry_rev ''501'']"

definition paging_fromstring :: "string \<Rightarrow> string + element" where
  "paging_fromstring s =
     (if s = first_xml then Inr (Element ''log'' [] None [entry_rev ''1''])
      else if s = late_xml then Inr (Element ''log'' [] None [entry_rev ''501''])
      else if s = both_xml then Inr both_root
      else Inl ''syntax error: line 1, column 0'')"

definition paging_lib :: library where
  "paging_lib = \<lparr>int_of = decimal, fromstring = paging_fromstring,
                  tostring = (\<lambda>e. both_xml), display_date = demo_display_date\<rparr>"

definition paged_source :: log_source where
  "paged_source =
     \<lparr>range_log = (\<lambda>a b. if a = 501 then Some late_xml
                          else if a = 1 \<and> b = 600 then Some both_xml
                          else Some []),
      single_log = (\<lambda>r. if r = 1 then Some first_xml else Some [])\<rparr>"

section \<open>Properties\<close>

subsection \<open>LogParser\<close>

lemma strip_mixed_xml: "mixed_xml \<noteq> [] \<and> strip mixed_xml = mixed_xml"
  by (simp add: mixed_xml_def strip_def isspace_def)

lemma strip_dated_xml: "dated_xml \<noteq> [] \<and> strip dated_xml = dated_xml"
  by (simp add: dated_xml_def strip_def isspace_def)

lemma dated_neq_mixed: "dated_xml \<noteq> mixed_xml"
  by (simp add: dated_xml_def mixed_xml_def)

lemma recover_mixed: "recover_root demo_lib mixed_xml = Inr mixed_root"
  by (simp add: recover_root_def demo_lib_def demo_fromstring_def)

lemma recover_dated: "recover_root demo_lib dated_xml = Inr dated_root"
  by (simp add: recover_root_def demo_lib_def demo_fromstring_def dated_neq_mixed)

lemma logentries_mixed: "logentries mixed_root = [entry_one, entry_two, entry_three]"
  by (simp add: logentries_def findall_desc_def mixed_root_def entry_one_def entry_two_def
        entry_three_def leaf_def)

lemma parse_entries_eq:
  "parse_entries lib clk repo i es =
     map (record_of lib clk repo) (filter (\<lambda>ie. parseable lib (snd ie)) (zip [i..<i + length es] es))"
proof (induction es arbitrary: i)
  case Nil
  show ?case by simp
next
  case (Cons e es)
  have z: "zip [i..<i + length (e # es)] (e # es) = (i, e) # zip [Suc i..<Suc i + length es] es"
    by (simp add: upt_rec)
  show ?case
    unfolding z using Cons.IH [of "Suc i"]
    by (auto simp: parseable_def record_of_def parse_entry_def split: option.splits)
qed

lemma revision_record_of:
  "parseable lib (snd ie) \<Longrightarrow> revision (record_of lib clk repo ie) = the (entry_revision lib (snd ie))"
  by (auto simp: parseable_def record_of_def parse_entry_def split: option.splits)


lemma map_snd_filter_zip:
  "length ns = length es \<Longrightarrow>
   map (\<lambda>ie. f (snd ie)) (filter (\<lambda>ie. P (snd ie)) (zip ns es)) = map f (filter P es)"
  by (induction ns es rule: list_induct2) auto

lemma parse_entry_parseable:
  "parseable lib e \<Longrightarrow> parse_entry lib clk repo i e = Inr (record_of lib clk repo (i, e))"
  by (auto simp: parseable_def record_of_def parse_entry_def split: option.splits)

lemma parse_svn_log_recovered:
  "strip xml_log \<noteq> [] \<Longrightarrow> recover_root lib (strip xml_log) = Inr root \<Longrightarrow>
   parse_svn_log lib clk xml_log repo = parse_entries lib clk repo 0 (logentries root)"
  by (auto simp: parse_svn_log_def strip_def)

lemma syntax_error_is_not_declaration:
  "\<not> contains ''syntax error: line 1, column 0''
       ''XML or text declaration not at start of entity''"
  by (simp add: startswith_def)

lemma mismatched_tag_is_not_declaration:
  "\<not> contains ''mismatched tag: line 1, column 95''
       ''XML or text declaration not at start of entity''"
  by (simp add: startswith_def)

lemma demo_rejects:
  "s \<noteq> mixed_xml \<Longrightarrow> s \<noteq> dated_xml \<Longrightarrow> recover_root demo_lib s = Inl UnboundLocalError"
  using syntax_error_is_not_declaration mismatched_tag_is_not_declaration
  by (simp add: recover_root_def demo_lib_def demo_fromstring_def)

lemma parseable_demo:
  "parseable demo_lib entry_one" "\<not> parseable demo_lib entry_two" "parseable demo_lib entry_three"
  by (simp_all add: parseable_def entry_revision_def attr_get_def demo_lib_def decimal_def
        entry_one_def entry_two_def entry_three_def)

lemma strip_broken_xml: "broken_xml \<noteq> [] \<and> strip broken_xml = broken_xml"
  by (simp add: broken_xml_def strip_def isspace_def)

lemma broken_neq: "broken_xml \<noteq> mixed_xml" "broken_xml \<noteq> dated_xml"
  by (simp_all add: broken_xml_def mixed_xml_def dated_xml_def)

lemma fromstring_broken:
  "fromstring demo_lib broken_xml = Inl ''mismatched tag: line 1, column 95''"
  by (simp add: demo_lib_def demo_fromstring_def broken_neq)

lemma parse_svn_log_unrecovered:
  assumes "strip xml_log \<noteq> []" and "recover_root lib (strip xml_log) = Inl e"
  shows "parse_svn_log lib clk xml_log repo =
           [failure_record clk (case e of ParseError m \<Rightarrow> ''XML parsing error''
                                | _ \<Rightarrow> ''Unknown error parsing log'') repo]"
proof -
  from assms(1) have "xml_log \<noteq> []" by (auto simp: strip_def)
  with assms show ?thesis
    by (cases e) (simp_all add: parse_svn_log_def)
qed

text \<open>
  Claim C6 as stated fails: in \<open>broken_xml\<close> the entry between the two valid entries
  is malformed as XML. \<open>ET.fromstring\<close> rejects the whole document with a message that
  no fallback treats, \<open>root\<close> stays unbound, and the result is the one synthetic
  record of the last handler, not the two records of the valid entries.
\<close>

theorem parse_broken_entry_counterexample:
  "fromstring demo_lib (strip broken_xml) = Inl ''mismatched tag: line 1, column 95'' \<and>
   recover_root demo_lib (strip broken_xml) = Inl UnboundLocalError \<and>
   parse_svn_log demo_lib morning broken_xml ''Repo'' =
     [failure_record morning ''Unknown error parsing log'' ''Repo''] \<and>
   length (parse_svn_log demo_lib morning broken_xml ''Repo'') = 1"
proof -
  have s: "strip broken_xml = broken_xml" and n: "strip broken_xml \<noteq> []"
    using strip_broken_xml by simp_all
  have r: "recover_root demo_lib (strip broken_xml) = Inl UnboundLocalError"
    unfolding s by (rule demo_rejects) (rule broken_neq)+
  from parse_svn_log_unrecovered [OF n r, of morning "''Repo''"] r fromstring_broken s
  show ?thesis by simp
qed

text \<open>
  Claim C6, amended. For every log input that is not blank. When its top-level
  structure is parsed, directly or by a fallback, the loop over the log entries
  drops exactly the entries whose processing raises (those whose \<open>revision\<close>
  attribute is not a number) and appends one record for every other entry, in the
  order of the entries: the result is the list of the records of the parseable
  entries; its revisions are those of the parseable entries in source order; and
  for a log of a valid entry, an entry with such a revision and a valid entry the
  result is exactly the two records of the valid entries, in their order. When the
  top-level structure is not parsed, as it is not when an entry is malformed as XML,
  no entry is processed and the result is the one synthetic record of the handler
  that caught the failure.
\<close>

theorem parse_skips_unparseable_entries:
  assumes "strip xml_log \<noteq> []"
  shows "(\<forall>root. recover_root lib (strip xml_log) = Inr root \<longrightarrow>
           parse_svn_log lib clk xml_log repo =
             map (record_of lib clk repo)
               (filter (\<lambda>ie. parseable lib (snd ie))
                  (zip [0..<length (logentries root)] (logentries root))) \<and>
           map revision (parse_svn_log lib clk xml_log repo) =
             map (\<lambda>e. the (entry_revision lib e)) (filter (parseable lib) (logentries root)) \<and>
           length (parse_svn_log lib clk xml_log repo) =
             length (filter (parseable lib) (logentries root)) \<and>
           (\<forall>e1 bad e2. logentries root = [e1, bad, e2] \<and> parseable lib e1 \<and>
                \<not> parseable lib bad \<and> parseable lib e2 \<longrightarrow>
              parse_svn_log lib clk xml_log repo =
                [record_of lib clk repo (0, e1), record_of lib clk repo (2, e2)] \<and>
              parse_entry lib clk repo 0 e1 = Inr (record_of lib clk repo (0, e1)) \<and>
              parse_entry lib clk repo 2 e2 = Inr (record_of lib clk repo (2, e2)))) \<and>
         (\<forall>e. recover_root lib (strip xml_log) = Inl e \<longrightarrow>
           parse_svn_log lib clk xml_log repo =
             [failure_record clk (case e of ParseError m \<Rightarrow> ''XML parsing error''
                                  | _ \<Rightarrow> ''Unknown error parsing log'') repo])"
proof (intro conjI allI impI)
  fix e assume "recover_root lib (strip xml_log) = Inl e"
  with assms show "parse_svn_log lib clk xml_log repo =
             [failure_record clk (case e of ParseError m \<Rightarrow> ''XML parsing error''
                                  | _ \<Rightarrow> ''Unknown error parsing log'') repo]"
    by (rule parse_svn_log_unrecovered)
next
  fix root assume rec: "recover_root lib (strip xml_log) = Inr root"
  let ?es = "logentries root"
  let ?kept = "filter (\<lambda>ie. parseable lib (snd ie)) (zip [0..<length ?es] ?es)"
  show p: "parse_svn_log lib clk xml_log repo = map (record_of lib clk repo) ?kept"
    using parse_svn_log_recovered [OF assms rec] parse_entries_eq [of lib clk repo 0 ?es]
    by simp
  have "map revision (map (record_of lib clk repo) ?kept)
          = map (\<lambda>ie. the (entry_revision lib (snd ie))) ?kept"
    by (simp add: revision_record_of)
  also have "\<dots> = map (\<lambda>e. the (entry_revision lib e)) (filter (parseable lib) ?es)"
    by (rule map_snd_filter_zip) simp
  finally show r: "map revision (parse_svn_log lib clk xml_log repo) =
           map (\<lambda>e. the (entry_revision lib e)) (filter (parseable lib) ?es)"
    using p by simp
  from r show "length (parse_svn_log lib clk xml_log repo) = length (filter (parseable lib) ?es)"
    by (metis length_map)
  fix e1 bad e2
  assume h: "logentries root = [e1, bad, e2] \<and> parseable lib e1 \<and>
              \<not> parseable lib bad \<and> parseable lib e2"
  then have es: "logentries root = [e1, bad, e2]" and p1: "parseable lib e1"
    and pb: "\<not> parseable lib bad" and p2: "parseable lib e2" by simp_all
  have z: "zip [0..<length ?es] ?es = [(0, e1), (1, bad), (2, e2)]"
    unfolding es by (simp add: upt_rec)
  from p z p1 pb p2
  show "parse_svn_log lib clk xml_log repo =
              [record_of lib clk repo (0, e1), record_of lib clk repo (2, e2)]"
    by simp
  from p1 show "parse_entry lib clk repo 0 e1 = Inr (record_of lib clk repo (0, e1))"
    by (rule parse_entry_parseable)
  from p2 show "parse_entry lib clk repo 2 e2 = Inr (record_of lib clk repo (2, e2))"
    by (rule parse_entry_parseable)
qed

text \<open>
  The log \<open>mixed_xml\<close>: its second entry has the revision \<open>two\<close>, and the result holds
  the records of revisions 1 and 3. The log \<open>broken_xml\<close>: its second entry is
  malformed as XML, and the result is the one synthetic record.
\<close>

theorem parse_skips_unparseable_entries_witness:
  "strip mixed_xml \<noteq> [] \<and> recover_root demo_lib (strip mixed_xml) = Inr mixed_root \<and>
   logentries mixed_root = [entry_one, entry_two, entry_three] \<and>
   parseable demo_lib entry_one \<and> \<not> parseable demo_lib entry_two \<and>
   parseable demo_lib entry_three \<and>
   parse_svn_log demo_lib morning mixed_xml ''Repo'' =
     [record_of demo_lib morning ''Repo'' (0, entry_one),
      record_of demo_lib morning ''Repo'' (2, entry_three)] \<and>
   map revision (parse_svn_log demo_lib morning mixed_xml ''Repo'') = [1, 3] \<and>
   strip broken_xml \<noteq> [] \<and> recover_root demo_lib (strip broken_xml) = Inl UnboundLocalError \<and>
   parse_svn_log demo_lib evening broken_xml ''Repo'' =
     [failure_record evening ''Unknown error parsing log'' ''Repo'']"
proof -
  have h1: "strip mixed_xml \<noteq> []" using strip_mixed_xml by simp
  have h2: "recover_root demo_lib (strip mixed_xml) = Inr mixed_root"
    using strip_mixed_xml recover_mixed by simp
  note t = parse_skips_unparseable_entries [OF h1, of demo_lib morning "''Repo''"]
  from t h2 have p: "parse_svn_log demo_lib morning mixed_xml ''Repo'' =
     [record_of demo_lib morning ''Repo'' (0, entry_one),
      record_of demo_lib morning ''Repo'' (2, entry_three)]"
    using logentries_mixed parseable_demo by blast
  have r: "map revision (parse_svn_log demo_lib morning mixed_xml ''Repo'') = [1, 3]"
    unfolding p
    by (simp add: record_of_def parse_entry_def entry_revision_def attr_get_def demo_lib_def
          decimal_def entry_one_def entry_three_def)
  have b1: "strip broken_xml \<noteq> []" using strip_broken_xml by simp
  have b2: "recover_root demo_lib (strip broken_xml) = Inl UnboundLocalError"
    using strip_broken_xml demo_rejects [OF broken_neq] by simp
  note u = parse_skips_unparseable_entries [OF b1, of demo_lib evening "''Repo''"]
  from u b2 have f: "parse_svn_log demo_lib evening broken_xml ''Repo'' =
     [failure_record evening ''Unknown error parsing log'' ''Repo'']"
    by force
  from h1 h2 logentries_mixed parseable_demo p r b1 b2 f show ?thesis by simp
qed

text \<open>
  Claim C5 as stated fails on the empty input: nothing can be recovered from it, and
  the guard at the top of \<open>_parse_svn_log\<close> returns the empty list, not a one-record
  list.
\<close>

theorem parse_failure_empty_counterexample:
  "recover_root demo_lib (strip '''') = Inl UnboundLocalError \<and>
   parse_svn_log demo_lib morning '''' ''Repo'' = []"
proof -
  have "strip '''' = []" by (simp add: strip_def)
  moreover have "recover_root demo_lib [] = Inl UnboundLocalError"
    by (rule demo_rejects) (simp_all add: mixed_xml_def dated_xml_def)
  ultimately show ?thesis by (simp add: parse_svn_log_def)
qed

text \<open>
  Claim C5, amended. When the top-level structure cannot be recovered by the
  fallbacks: a blank input (empty after \<open>strip()\<close>) gives the empty list; every other
  input gives exactly one synthetic record, with revision 0, author \<open>unknown\<close>, no
  paths, the repository name, and the message \<open>XML parsing error\<close> when a fallback's
  own \<open>fromstring\<close> raised and \<open>Unknown error parsing log\<close> otherwise. The function
  has no other outcome: it does not raise.
\<close>

theorem parse_failure_single_record:
  assumes "recover_root lib (strip xml_log) = Inl e"
  shows "(strip xml_log = [] \<longrightarrow> parse_svn_log lib clk xml_log repo = []) \<and>
         (strip xml_log \<noteq> [] \<longrightarrow>
            parse_svn_log lib clk xml_log repo =
              [failure_record clk (case e of ParseError m \<Rightarrow> ''XML parsing error''
                                   | _ \<Rightarrow> ''Unknown error parsing log'') repo] \<and>
            length (parse_svn_log lib clk xml_log repo) = 1 \<and>
            revision (hd (parse_svn_log lib clk xml_log repo)) = 0 \<and>
            author (hd (parse_svn_log lib clk xml_log repo)) = Some ''unknown'' \<and>
            changed_paths (hd (parse_svn_log lib clk xml_log repo)) = [] \<and>
            repository (hd (parse_svn_log lib clk xml_log repo)) = repo)"
proof -
  have ne: "strip xml_log \<noteq> [] \<Longrightarrow> xml_log \<noteq> []"
    by (auto simp: strip_def)
  show ?thesis
    using assms ne
    by (cases e) (auto simp: parse_svn_log_def failure_record_def)
qed

text \<open>The inputs \<open>not xml\<close> (one record) and two blanks (no record).\<close>

theorem parse_failure_single_record_witness:
  "recover_root demo_lib (strip ''not xml'') = Inl UnboundLocalError \<and>
   strip ''not xml'' \<noteq> [] \<and>
   parse_svn_log demo_lib morning ''not xml'' ''Repo'' =
     [failure_record morning ''Unknown error parsing log'' ''Repo''] \<and>
   recover_root demo_lib (strip ''  '') = Inl UnboundLocalError \<and>
   strip ''  '' = [] \<and>
   parse_svn_log demo_lib morning ''  '' ''Repo'' = []"
proof -
  have s1: "strip ''not xml'' = ''not xml''" and s2: "strip ''  '' = []"
    by (simp_all add: strip_def isspace_def)
  have r1: "recover_root demo_lib (strip ''not xml'') = Inl UnboundLocalError"
    unfolding s1 by (rule demo_rejects) (simp_all add: mixed_xml_def dated_xml_def)
  have r2: "recover_root demo_lib (strip ''  '') = Inl UnboundLocalError"
    unfolding s2 by (rule demo_rejects) (simp_all add: mixed_xml_def dated_xml_def)
  from parse_failure_single_record [OF r1, of morning "''Repo''"]
       parse_failure_single_record [OF r2, of morning "''Repo''"] r1 r2 s1 s2
  show ?thesis by simp
qed

lemma entry_date_decodable:
  "date_decodable lib e \<Longrightarrow> entry_date lib clk1 i e = entry_date lib clk2 j e"
  by (auto simp: date_decodable_def entry_date_def split: option.splits)

lemma parse_entries_clock:
  "\<forall>e \<in> set es. date_decodable lib e \<Longrightarrow>
   parse_entries lib clk1 repo i es = parse_entries lib clk2 repo i es"
proof (induction es arbitrary: i)
  case Nil
  show ?case by simp
next
  case (Cons e es)
  then have d: "entry_date lib clk1 i e = entry_date lib clk2 i e"
    by (simp add: entry_date_decodable)
  have "parse_entry lib clk1 repo i e = parse_entry lib clk2 repo i e"
    by (simp add: parse_entry_def d split: option.splits)
  with Cons show ?case by (simp split: sum.splits)
qed

text \<open>
  Claim C10 as stated fails: the third entry of \<open>mixed_xml\<close> has a date that cannot be
  decoded, so its record carries the wall clock of the run, and a run in the morning
  and a run in the evening differ.
\<close>

theorem parse_depends_on_clock_counterexample:
  "parse_svn_log demo_lib morning mixed_xml ''Repo'' \<noteq>
   parse_svn_log demo_lib evening mixed_xml ''Repo''"
proof -
  have h1: "strip mixed_xml \<noteq> []" using strip_mixed_xml by simp
  have h2: "recover_root demo_lib (strip mixed_xml) = Inr mixed_root"
    using strip_mixed_xml recover_mixed by simp
  have "date (parse_svn_log demo_lib morning mixed_xml ''Repo'' ! 1) = ''2024-06-01 09:00:00''"
    unfolding parse_svn_log_recovered [OF h1 h2] logentries_mixed
    by (simp add: parse_entry_def entry_revision_def attr_get_def demo_lib_def
          decimal_def entry_one_def entry_two_def entry_three_def entry_date_def find_child_def
          leaf_def demo_display_date_def replace_Z_def morning_def)
  moreover
  have "date (parse_svn_log demo_lib evening mixed_xml ''Repo'' ! 1) = ''2024-06-01 21:00:00''"
    unfolding parse_svn_log_recovered [OF h1 h2] logentries_mixed
    by (simp add: parse_entry_def entry_revision_def attr_get_def demo_lib_def
          decimal_def entry_one_def entry_two_def entry_three_def entry_date_def find_child_def
          leaf_def demo_display_date_def replace_Z_def evening_def)
  ultimately show ?thesis by auto
qed

text \<open>
  Claim C10, amended. For an input that is blank, or whose top-level structure is
  recovered and all of whose entries carry a date the library decodes, two runs give
  the same list of records whatever the wall clock reads.
\<close>

theorem parse_deterministic_given_dates:
  assumes "strip xml_log = [] \<or>
           (\<exists>root. recover_root lib (strip xml_log) = Inr root \<and>
                   (\<forall>e \<in> set (logentries root). date_decodable lib e))"
  shows "parse_svn_log lib clk1 xml_log repo = parse_svn_log lib clk2 xml_log repo"
  using assms
proof
  assume "strip xml_log = []"
  then show ?thesis by (simp add: parse_svn_log_def)
next
  assume "\<exists>root. recover_root lib (strip xml_log) = Inr root \<and>
                   (\<forall>e \<in> set (logentries root). date_decodable lib e)"
  then obtain root where r: "recover_root lib (strip xml_log) = Inr root"
    and d: "\<forall>e \<in> set (logentries root). date_decodable lib e" by blast
  show ?thesis
    using r parse_entries_clock [OF d, of clk1 repo 0 clk2]
    by (simp add: parse_svn_log_def)
qed

text \<open>
  An entry without a date the library decodes takes the reading of the wall clock.
\<close>

lemma entry_date_undecodable:
  "\<not> date_decodable lib e \<Longrightarrow> entry_date lib clk i e = now_str clk i"
  by (auto simp: date_decodable_def entry_date_def split: option.splits)

lemma logentries_dated: "logentries dated_root = [entry_one]"
  by (simp add: logentries_def findall_desc_def dated_root_def entry_one_def leaf_def)

text \<open>The log \<open>dated_xml\<close>, parsed in the morning and in the evening.\<close>

theorem parse_deterministic_given_dates_witness:
  "recover_root demo_lib (strip dated_xml) = Inr dated_root \<and>
   logentries dated_root = [entry_one] \<and>
   date_decodable demo_lib entry_one \<and>
   parse_svn_log demo_lib morning dated_xml ''Repo'' =
   parse_svn_log demo_lib evening dated_xml ''Repo''"
proof -
  have r: "recover_root demo_lib (strip dated_xml) = Inr dated_root"
    using strip_dated_xml recover_dated by simp
  have d: "date_decodable demo_lib entry_one"
    by (simp add: date_decodable_def find_child_def entry_one_def leaf_def demo_lib_def
          demo_display_date_def replace_Z_def)
  from r d logentries_dated have "strip dated_xml = [] \<or>
           (\<exists>root. recover_root demo_lib (strip dated_xml) = Inr root \<and>
                   (\<forall>e \<in> set (logentries root). date_decodable demo_lib e))" by simp
  from parse_deterministic_given_dates [OF this, of morning "''Repo''" evening]
    r d logentries_dated
  show ?thesis by simp
qed

declare send_loop.simps [simp del]

lemma attempt_cases:
  "attempt hc msg s = Inr True \<or> attempt hc msg s = Inl OtherException \<or> transport_failure (attempt hc msg s)"
  unfolding transport_failure_def
  by (cases "attempt hc msg s") (auto intro: exn.exhaust)

lemma send_loop_step_retry:
  "retry_count \<le> max_retries \<Longrightarrow> transport_failure (attempt hc msg (server retry_count)) \<Longrightarrow>
   send_loop server hc msg retry_count tr =
     send_loop server hc msg (retry_count + 1) (tr @ [Attempt retry_count, Sleep 2])"
  by (subst send_loop.simps) (auto simp: transport_failure_def)

lemma send_loop_step_sent:
  "retry_count \<le> max_retries \<Longrightarrow> attempt hc msg (server retry_count) = Inr True \<Longrightarrow>
   send_loop server hc msg retry_count tr = (Returned True, tr @ [Attempt retry_count])"
  by (subst send_loop.simps) auto

lemma send_loop_step_break:
  "retry_count \<le> max_retries \<Longrightarrow> attempt hc msg (server retry_count) = Inl OtherException \<Longrightarrow>
   send_loop server hc msg retry_count tr = (Returned False, tr @ [Attempt retry_count])"
  by (subst send_loop.simps) auto

lemma send_loop_step_exhausted:
  "\<not> retry_count \<le> max_retries \<Longrightarrow> send_loop server hc msg retry_count tr = (Returned False, tr)"
  by (subst send_loop.simps) auto

lemma send_loop_shape:
  "k + d = 1 + max_retries \<Longrightarrow> \<exists>n b. loop_post server hc msg k tr n b"
proof (induction d arbitrary: k tr)
  case 0
  then have "loop_post server hc msg k tr 0 False"
    by (simp add: loop_post_def send_loop_step_exhausted)
  then show ?case by blast
next
  case (Suc d)
  then have le: "k \<le> max_retries" by simp
  consider (sent) "attempt hc msg (server k) = Inr True"
    | (brk) "attempt hc msg (server k) = Inl OtherException"
    | (retry) "transport_failure (attempt hc msg (server k))"
    using attempt_cases by blast
  then show ?case
  proof cases
    case sent
    with le have "loop_post server hc msg k tr 0 True"
      by (simp add: loop_post_def send_loop_step_sent)
    then show ?thesis by blast
  next
    case brk
    with le have "loop_post server hc msg k tr 0 False"
      by (simp add: loop_post_def send_loop_step_break)
    then show ?thesis by blast
  next
    case retry
    from Suc.prems have "Suc k + d = 1 + max_retries" by simp
    from Suc.IH [OF this, of "tr @ [Attempt k, Sleep 2]"]
    obtain n b where p: "loop_post server hc msg (Suc k) (tr @ [Attempt k, Sleep 2]) n b"
      by blast
    have all: "\<forall>j < Suc n. transport_failure (attempt hc msg (server (k + j)))"
    proof (intro allI impI)
      fix j assume "j < Suc n"
      show "transport_failure (attempt hc msg (server (k + j)))"
      proof (cases j)
        case 0
        with retry show ?thesis by simp
      next
        case (Suc i)
        with \<open>j < Suc n\<close> p show ?thesis by (simp add: loop_post_def)
      qed
    qed
    have "loop_post server hc msg k tr (Suc n) b"
      using p all le retry
      by (simp add: loop_post_def send_loop_step_retry split: if_splits)
    then show ?thesis by blast
  qed
qed


lemma attempts_retry_trace: "attempts (retry_trace k n) = [k..<k + n]"
  by (induction n arbitrary: k) (simp_all add: attempts_def upt_rec)

lemma sleeps_retry_trace: "sleeps (retry_trace k n) = replicate n 2"
  by (induction n arbitrary: k) (simp_all add: sleeps_def)

lemma attempts_append: "attempts (xs @ ys) = attempts xs @ attempts ys"
  by (simp add: attempts_def)

lemma sleeps_append: "sleeps (xs @ ys) = sleeps xs @ sleeps ys"
  by (simp add: sleeps_def)

lemma attempts_single: "attempts [Attempt k] = [k]" "sleeps [Attempt k] = []"
  by (simp_all add: attempts_def sleeps_def)

lemma send_loop_budget:
  assumes "send_loop server hc msg 0 [] = (r, tr)"
  shows "(r = Returned True \<or> r = Returned False) \<and>
         length (attempts tr) \<le> 1 + max_retries \<and>
         (\<exists>n. tr = retry_trace 0 n \<or> tr = retry_trace 0 n @ [Attempt n]) \<and>
         (\<forall>k. k \<in> set (attempts tr) \<longrightarrow> attempt hc msg (server k) = Inl OtherException \<longrightarrow>
            Suc k \<notin> set (attempts tr) \<and> r = Returned False) \<and>
         (\<forall>k. k \<in> set (attempts tr) \<longrightarrow> transport_failure (attempt hc msg (server k)) \<longrightarrow>
            k < max_retries \<longrightarrow> Suc k \<in> set (attempts tr))"
proof -
  obtain n b where p: "loop_post server hc msg 0 [] n b"
    using send_loop_shape [of 0 "1 + max_retries" server hc msg "[]"] by auto
  then have tf: "\<forall>j < n. transport_failure (attempt hc msg (server j))"
    by (simp add: loop_post_def)
  show ?thesis
  proof (cases "n = 1 + max_retries")
    case True
    with p assms have r: "r = Returned False" and tr: "tr = retry_trace 0 n"
      by (simp_all add: loop_post_def)
    have a: "attempts tr = [0..<n]"
      using tr by (simp add: attempts_retry_trace)
    have c4: "\<forall>k. k \<in> set (attempts tr) \<longrightarrow> attempt hc msg (server k) = Inl OtherException \<longrightarrow>
            Suc k \<notin> set (attempts tr) \<and> r = Returned False"
      using a tf by (auto simp: transport_failure_def)
    have c5: "\<forall>k. k \<in> set (attempts tr) \<longrightarrow> transport_failure (attempt hc msg (server k)) \<longrightarrow>
            k < max_retries \<longrightarrow> Suc k \<in> set (attempts tr)"
      using a True by auto
    have c3: "\<exists>n. tr = retry_trace 0 n \<or> tr = retry_trace 0 n @ [Attempt n]"
      using tr by blast
    from r a True c3 c4 c5 show ?thesis by simp
  next
    case False
    with p assms have r: "r = Returned b" and tr: "tr = retry_trace 0 n @ [Attempt n]"
      and le: "n \<le> max_retries"
      and last: "attempt hc msg (server n) = (if b then Inr True else Inl OtherException)"
      by (simp_all add: loop_post_def)
    have a: "attempts tr = [0..<Suc n]"
      using tr by (simp add: attempts_append attempts_retry_trace attempts_single)
    have c4: "\<forall>k. k \<in> set (attempts tr) \<longrightarrow> attempt hc msg (server k) = Inl OtherException \<longrightarrow>
            Suc k \<notin> set (attempts tr) \<and> r = Returned False"
    proof (intro allI impI)
      fix k assume k: "k \<in> set (attempts tr)" and o: "attempt hc msg (server k) = Inl OtherException"
      have "\<not> k < n" using tf o by (auto simp: transport_failure_def)
      with k a have "k = n" by simp
      with o last r a show "Suc k \<notin> set (attempts tr) \<and> r = Returned False"
        by (simp split: if_splits)
    qed
    have c5: "\<forall>k. k \<in> set (attempts tr) \<longrightarrow> transport_failure (attempt hc msg (server k)) \<longrightarrow>
            k < max_retries \<longrightarrow> Suc k \<in> set (attempts tr)"
    proof (intro allI impI)
      fix k assume k: "k \<in> set (attempts tr)" and t: "transport_failure (attempt hc msg (server k))"
      have "k \<noteq> n" using t last by (auto simp: transport_failure_def split: if_splits)
      with k a show "Suc k \<in> set (attempts tr)" by auto
    qed
    have c3: "\<exists>n. tr = retry_trace 0 n \<or> tr = retry_trace 0 n @ [Attempt n]"
      using tr by blast
    have c1: "r = Returned True \<or> r = Returned False"
      using r by (cases b) simp_all
    from c1 a le c3 c4 c5 show ?thesis by simp
  qed
qed

lemma send_email_cases:
  assumes "send_email lib config server msg = (r, tr)"
  shows "(r = Returned False \<and> tr = []) \<or>
         (\<exists>email. config ''EMAIL'' = Some email \<and>
            send_loop server (has_credentials email) msg 0 [] = (r, tr))"
proof -
  have nr: "\<And>hc e t. send_loop server hc msg 0 [] \<noteq> (Raised e, t)"
  proof
    fix hc e t assume "send_loop server hc msg 0 [] = (Raised e, t)"
    from send_loop_budget [OF this] show False by auto
  qed
  show ?thesis
    using assms nr
    by (auto simp: send_email_def send_email_body_def
        split: option.splits py_ret.splits prod.splits)
qed

text \<open>
  Claim C4. Whatever the configuration, the message and the mail server do,
  \<open>_send_email\<close> returns \<open>True\<close> or \<open>False\<close> (it neither raises nor returns \<open>None\<close>);
  it opens at most \<open>1 + max_retries = 3\<close> connections; every failed pass that is
  retried is followed by the same \<open>sleep(2)\<close>; a pass that raises an exception
  outside the \<open>smtplib\<close> hierarchy ends the loop with \<open>False\<close> and no further pass;
  a pass that fails at the transport level (authentication failure or any other
  \<open>SMTPException\<close>) is followed by another pass while fewer than \<open>max_retries\<close>
  retries were made.
\<close>

theorem send_email_bounded_retries:
  assumes "send_email lib config server msg = (r, tr)"
  shows "(r = Returned True \<or> r = Returned False) \<and>
         length (attempts tr) \<le> 1 + max_retries \<and>
         (\<exists>n. tr = retry_trace 0 n \<or> tr = retry_trace 0 n @ [Attempt n]) \<and>
         (\<forall>email k. config ''EMAIL'' = Some email \<longrightarrow> k \<in> set (attempts tr) \<longrightarrow>
            attempt (has_credentials email) msg (server k) = Inl OtherException \<longrightarrow>
            Suc k \<notin> set (attempts tr) \<and> r = Returned False) \<and>
         (\<forall>email k. config ''EMAIL'' = Some email \<longrightarrow> k \<in> set (attempts tr) \<longrightarrow>
            transport_failure (attempt (has_credentials email) msg (server k)) \<longrightarrow>
            k < max_retries \<longrightarrow> Suc k \<in> set (attempts tr))"
proof -
  from send_email_cases [OF assms] show ?thesis
  proof
    assume "r = Returned False \<and> tr = []"
    then show ?thesis by (simp add: attempts_def exI[of _ 0])
  next
    assume "\<exists>email. config ''EMAIL'' = Some email \<and>
            send_loop server (has_credentials email) msg 0 [] = (r, tr)"
    then obtain email where e: "config ''EMAIL'' = Some email"
      and l: "send_loop server (has_credentials email) msg 0 [] = (r, tr)" by blast
    from send_loop_budget [OF l] e show ?thesis by simp
  qed
qed

text \<open>
  A server whose first pass fails on connecting with an \<open>SMTPException\<close> and whose
  second pass raises a non-SMTP exception in \<open>send_message\<close>: the first pass is
  retried after the backoff, the second is not, and the result is \<open>False\<close>.
\<close>

theorem send_email_bounded_retries_witness:
  "send_email demo_lib demo_config flaky_server demo_msg
     = (Returned False, [Attempt 0, Sleep 2, Attempt 1]) \<and>
   demo_config ''EMAIL'' = Some demo_email \<and>
   length (attempts [Attempt 0, Sleep 2, Attempt 1]) \<le> 1 + max_retries \<and>
   transport_failure (attempt (has_credentials demo_email) demo_msg (flaky_server 0)) \<and>
   0 < max_retries \<and>
   0 \<in> set (attempts [Attempt 0, Sleep 2, Attempt 1]) \<and>
   Suc 0 \<in> set (attempts [Attempt 0, Sleep 2, Attempt 1]) \<and>
   attempt (has_credentials demo_email) demo_msg (flaky_server (Suc 0)) = Inl OtherException \<and>
   Suc (Suc 0) \<notin> set (attempts [Attempt 0, Sleep 2, Attempt 1])"
proof -
  have run: "send_email demo_lib demo_config flaky_server demo_msg
     = (Returned False, [Attempt 0, Sleep 2, Attempt 1])"
    by (simp add: send_email_def send_email_body_def demo_config_def demo_email_def sec_get_def
      decimal_def demo_lib_def send_loop.simps max_retries_def flaky_server_def no_exn_def
      attempt_def demo_msg_def has_credentials_def strip_def isspace_def)
  have e: "demo_config ''EMAIL'' = Some demo_email"
    by (simp add: demo_config_def)
  have a0: "transport_failure (attempt (has_credentials demo_email) demo_msg (flaky_server 0))"
    by (simp add: transport_failure_def flaky_server_def no_exn_def attempt_def)
  have a1: "attempt (has_credentials demo_email) demo_msg (flaky_server (Suc 0))
     = Inl OtherException"
    by (simp add: demo_email_def flaky_server_def no_exn_def attempt_def demo_msg_def
      has_credentials_def strip_def isspace_def sec_get_def)
  have m: "0 < max_retries" by (simp add: max_retries_def)
  have i0: "0 \<in> set (attempts [Attempt 0, Sleep 2, Attempt 1])"
    and i1: "Suc 0 \<in> set (attempts [Attempt 0, Sleep 2, Attempt 1])"
    by (simp_all add: attempts_def)
  note t = send_email_bounded_retries [OF run]
  from t have len: "length (attempts [Attempt 0, Sleep 2, Attempt 1]) \<le> 1 + max_retries"
    by blast
  from t e i1 a1 have n2: "Suc (Suc 0) \<notin> set (attempts [Attempt 0, Sleep 2, Attempt 1])"
    by blast
  from run e len a0 m i0 i1 a1 n2 show ?thesis by blast
qed
subsection \<open>NotificationDispatcher: missing credentials\<close>

lemma has_credentials_iff:
  "has_credentials email \<longleftrightarrow>
     (\<exists>u p. email ''username'' = Some u \<and> email ''password'' = Some p \<and>
            strip u \<noteq> [] \<and> strip p \<noteq> [])"
  by (auto simp: has_credentials_def sec_get_def)

text \<open>
  Claim C3 as stated fails: with a blank password the dispatcher returns \<open>False\<close>,
  the value it also returns when credentials are configured and the delivery fails;
  the skip is reported to the caller as a negative outcome.
\<close>

theorem missing_credentials_reported_as_failure_counterexample:
  "\<not> has_credentials detect_only_email \<and>
   fst (send_email_notification demo_lib detect_only_config demo_compose flaky_server
          [demo_change]) = Returned False \<and>
   has_credentials demo_email \<and>
   fst (send_email_notification demo_lib demo_config demo_compose flaky_server
          [demo_change]) = Returned False"
  by (simp add: send_email_notification_def detect_only_config_def detect_only_email_def
      has_credentials_def sec_get_def strip_def isspace_def demo_config_def demo_email_def
      demo_compose_def send_email_def send_email_body_def demo_lib_def decimal_def
      send_loop.simps max_retries_def flaky_server_def no_exn_def attempt_def demo_msg_def)

text \<open>
  Claim C3, amended. For every non-empty payload, when the transport fields are
  present and the user name or the password is missing or blank, the dispatcher
  opens no connection, records the skip as an \<open>INFO\<close> operation (neither \<open>WARNING\<close> nor
  \<open>ERROR\<close>) and returns \<open>False\<close>.
\<close>

theorem missing_credentials_skip:
  assumes "changes \<noteq> []"
    and "config ''EMAIL'' = Some email"
    and "email ''smtp_server'' \<noteq> None" and "email ''from_email'' \<noteq> None"
    and "email ''to_emails'' \<noteq> None"
    and "email ''username'' = None \<or> email ''password'' = None \<or>
         strip (the (email ''username'')) = [] \<or> strip (the (email ''password'')) = []"
  shows "send_email_notification lib config compose server changes =
           (Returned False, [],
            [(''NOTIFICATION'', ''Attempting to send email notification''),
             (''INFO'', ''Email notification skipped: No valid SMTP credentials configured'')])"
proof -
  have "\<not> has_credentials email"
    using assms(6) by (auto simp: has_credentials_iff)
  with assms(1-5) show ?thesis
    by (auto simp: send_email_notification_def Let_def)
qed

text \<open>The configuration \<open>detect_only_config\<close>, whose password is two blanks.\<close>

theorem missing_credentials_skip_witness:
  "[demo_change] \<noteq> [] \<and> detect_only_config ''EMAIL'' = Some detect_only_email \<and>
   detect_only_email ''smtp_server'' \<noteq> None \<and> detect_only_email ''from_email'' \<noteq> None \<and>
   detect_only_email ''to_emails'' \<noteq> None \<and>
   strip (the (detect_only_email ''password'')) = [] \<and>
   send_email_notification demo_lib detect_only_config demo_compose flaky_server [demo_change] =
           (Returned False, [],
            [(''NOTIFICATION'', ''Attempting to send email notification''),
             (''INFO'', ''Email notification skipped: No valid SMTP credentials configured'')])"
proof -
  have h2: "detect_only_config ''EMAIL'' = Some detect_only_email"
    by (simp add: detect_only_config_def)
  have h3: "detect_only_email ''smtp_server'' \<noteq> None" "detect_only_email ''from_email'' \<noteq> None"
    "detect_only_email ''to_emails'' \<noteq> None"
    by (simp_all add: detect_only_email_def)
  have h6: "strip (the (detect_only_email ''password'')) = []"
    by (simp add: detect_only_email_def strip_def isspace_def)
  then have h6': "detect_only_email ''username'' = None \<or> detect_only_email ''password'' = None \<or>
         strip (the (detect_only_email ''username'')) = [] \<or>
         strip (the (detect_only_email ''password'')) = []" by simp
  have h1: "[demo_change] \<noteq> []" by simp
  from missing_credentials_skip [of "[demo_change]" detect_only_config detect_only_email
      demo_lib demo_compose flaky_server, OF h1 h2 h3 h6'] h1 h2 h3 h6
  show ?thesis by simp
qed

subsection \<open>ChangeAggregator\<close>

lemma join_nonempty: "xs \<noteq> [] \<Longrightarrow> [] \<notin> set xs \<Longrightarrow> join sep xs \<noteq> []"
  by (induction sep xs rule: join.induct) auto

lemma loaded_lookup:
  "loaded rm \<Longrightarrow> map_of rm k = Some rs \<Longrightarrow> join sep rs \<noteq> []"
proof -
  assume l: "loaded rm" and m: "map_of rm k = Some rs"
  from m have "(k, rs) \<in> set rm" by (rule map_of_SomeD)
  with l have "rs \<noteq> []" and "[] \<notin> set rs" by (auto simp: loaded_def)
  then show ?thesis by (rule join_nonempty)
qed

lemma source_for_empty_iff:
  "loaded rm \<Longrightarrow> source_for rm k = [] \<longleftrightarrow> map_of rm k = None"
  by (auto simp: source_for_def loaded_lookup split: option.splits)

lemma source_for_Some: "map_of rm k = Some rs \<Longrightarrow> source_for rm k = join '', '' rs"
  by (simp add: source_for_def)

lemma all_recipients_empty_iff:
  "loaded rm \<Longrightarrow> all_excel_recipients rm = {} \<longleftrightarrow> rm = []"
  by (cases rm) (auto simp: loaded_def all_excel_recipients_def)

lemma all_recipients_no_blank: "loaded rm \<Longrightarrow> [] \<notin> all_excel_recipients rm"
  by (auto simp: loaded_def all_excel_recipients_def)

lemma union_source:
  assumes "loaded rm" and "set (set_iter (all_excel_recipients rm)) = all_excel_recipients rm"
  shows "join '', '' (set_iter (all_excel_recipients rm)) = [] \<longleftrightarrow> rm = []"
proof
  assume "rm = []"
  with assms(2) have "set_iter (all_excel_recipients rm) = []"
    by (simp add: all_excel_recipients_def)
  then show "join '', '' (set_iter (all_excel_recipients rm)) = []" by simp
next
  assume j: "join '', '' (set_iter (all_excel_recipients rm)) = []"
  show "rm = []"
  proof (rule ccontr)
    assume "rm \<noteq> []"
    with assms(1) have "all_excel_recipients rm \<noteq> {}"
      by (simp add: all_recipients_empty_iff)
    with assms(2) have "set_iter (all_excel_recipients rm) \<noteq> []" by auto
    moreover have "[] \<notin> set (set_iter (all_excel_recipients rm))"
      using assms all_recipients_no_blank by simp
    ultimately show False using j join_nonempty by blast
  qed
qed

text \<open>
  Claim C7. For every recipients mapping the loader can produce (every entry holds
  at least one address, none blank), every name mapping that gives the repository no
  blank alias, every repository identifier and every default list,
  \<open>_get_recipients_for_repository\<close> returns what the resolution order of the
  specification returns: the first non-empty result among exact identifier, alias,
  identifier with \<open>REPO_\<close> added, identifier with \<open>REPO_\<close> stripped and the union of
  all configured recipients, and the global default list when all are empty.
\<close>

theorem recipients_resolved_in_order:
  assumes "loaded recipients_mapping"
    and "set (set_iter (all_excel_recipients recipients_mapping))
           = all_excel_recipients recipients_mapping"
    and "map_of repo_name_mapping repo_name \<noteq> Some []"
  shows "get_recipients_for_repository set_iter recipients_mapping repo_name_mapping email repo_name
       = resolve_in_order set_iter recipients_mapping repo_name_mapping email repo_name"
proof -
  note e = source_for_empty_iff [OF assms(1)]
  note u = union_source [of recipients_mapping set_iter, OF assms(1,2)]
  note a = all_recipients_empty_iff [OF assms(1)]
  show ?thesis
    using assms(3) e u a
    by (auto simp: get_recipients_for_repository_def resolve_in_order_def sources_in_order_def
        source_for_Some split: option.splits)
qed


lemma set_dict_set: "set (dict_set d k v) \<subseteq> insert (k, v) (set d)"
  by (induction d k v rule: dict_set.induct) auto

lemma loaded_dict_set:
  "loaded d \<Longrightarrow> v \<noteq> [] \<Longrightarrow> [] \<notin> set v \<Longrightarrow> loaded (dict_set d k v)"
  using set_dict_set [of d k v] by (auto simp: loaded_def)

lemma loaded_load_recipients: "loaded m \<Longrightarrow> loaded (load_recipients rows m)"
proof (induction rows arbitrary: m)
  case Nil
  then show ?case by simp
next
  case (Cons row rows)
  obtain repo_id recipients_str where row: "row = (repo_id, recipients_str)" by (cases row)
  show ?case
    unfolding row
    by (auto simp: Let_def Cons.prems intro!: Cons.IH loaded_dict_set
        split: option.splits)
qed

lemma demo_recipients_value:
  "demo_recipients = [(''REPO_1'', [''a@x.com'', ''b@x.com''])]"
  by (simp add: demo_recipients_def demo_rows_def strip_def isspace_def)

text \<open>
  The mapping loaded from the two rows of \<open>demo_rows\<close>; the identifier \<open>1\<close> has no
  entry and no alias, and is found with the prefix added.
\<close>

theorem recipients_resolved_in_order_witness:
  "loaded demo_recipients \<and>
   set (demo_set_iter (all_excel_recipients demo_recipients))
     = all_excel_recipients demo_recipients \<and>
   map_of demo_names ''1'' \<noteq> Some [] \<and>
   get_recipients_for_repository demo_set_iter demo_recipients demo_names demo_email ''1''
     = ''a@x.com, b@x.com'' \<and>
   resolve_in_order demo_set_iter demo_recipients demo_names demo_email ''1''
     = ''a@x.com, b@x.com''"
proof -
  have l: "loaded demo_recipients"
    unfolding demo_recipients_def by (rule loaded_load_recipients) (simp add: loaded_def)
  have i: "set (demo_set_iter (all_excel_recipients demo_recipients))
     = all_excel_recipients demo_recipients"
    by (auto simp: demo_recipients_value demo_set_iter_def all_excel_recipients_def)
  have n: "map_of demo_names ''1'' \<noteq> Some []"
    by (simp add: demo_names_def)
  have g: "get_recipients_for_repository demo_set_iter demo_recipients demo_names demo_email ''1''
     = ''a@x.com, b@x.com''"
    by (simp add: get_recipients_for_repository_def demo_recipients_value demo_names_def)
  from recipients_resolved_in_order
    [of demo_recipients demo_set_iter demo_names "''1''" demo_email, OF l i n] g l i n
  show ?thesis by simp
qed

subsection \<open>RepositoryClient: lock recovery\<close>

lemma lock_message_related: "lock_related lock_message"
  by (simp add: lock_related_def lock_message_def lower_def lower_char_def startswith_def)

lemma cleanup_without_working_dir:
  "try_svn_cleanup w None n tr = (Returned False, n, tr)"
  by (simp add: try_svn_cleanup_def)

lemma run_locked_for:
  "n + d = m \<Longrightarrow>
   run_svn_command (locked_for m out) None n tr
     = Some (Returned (strip out), Suc m, tr @ replicate (Suc d) Command)"
proof (induction d arbitrary: n tr)
  case 0
  then show ?case
    by (subst run_svn_command.simps) (simp add: locked_for_def)
next
  case (Suc d)
  then have lt: "n < m" and nx: "Suc n + d = m" by simp_all
  have p: "proc (locked_for m out) n = CalledProcessError lock_message"
    using lt by (simp add: locked_for_def)
  show ?case
    apply (subst run_svn_command.simps)
    apply (simp add: p lock_message_related cleanup_without_working_dir
        Suc.IH [OF nx] replicate_app_Cons_same)
    done
qed

lemma cleanup_always_locked:
  "try_svn_cleanup always_locked wd n tr = (Returned False, n, tr) \<or>
   try_svn_cleanup always_locked wd n tr = (Returned False, n + 1, tr @ [Cleanup])"
  by (simp add: try_svn_cleanup_def always_locked_def lock_message_def lower_def
      lower_char_def startswith_def)

lemma run_never_returns_aux:
  assumes r: "run_svn_command w0 wd0 n0 tr0 = Some y0"
  shows "w0 \<noteq> always_locked"
proof (rule run_svn_command.raw_induct
    [where P = "\<lambda>w wd n tr y. w \<noteq> always_locked", OF _ r], goal_cases)
  case (1 f w wd n tr y)
  show ?case
  proof
    assume w: "w = always_locked"
    have p: "proc w n = CalledProcessError lock_message"
      by (simp add: w always_locked_def)
    from 1(2) have body:
      "(case try_svn_cleanup w wd (Suc n) (tr @ [Command]) of
          (Raised e, n', tr') \<Rightarrow> Some (Raised e, n', tr')
        | (_, n', tr') \<Rightarrow>
            Option.bind (f w wd n' tr')
              (\<lambda>r. case r of
                     (Raised e, n'', tr'') \<Rightarrow> Some (Returned [], n'', tr'')
                   | _ \<Rightarrow> Some r)) = Some y"
      by (simp add: p lock_message_related)
    from cleanup_always_locked [of wd "Suc n" "tr @ [Command]"]
    obtain n' tr' where c: "try_svn_cleanup w wd (Suc n) (tr @ [Command]) = (Returned False, n', tr')"
      unfolding w by blast
    from body obtain r where "f w wd n' tr' = Some r"
      by (auto simp: c Option.bind_eq_Some_conv)
    from 1(1) [OF this] w show False by simp
  qed
qed

text \<open>
  When every call fails with the lock error, as in the third case of
  \<open>test_run_svn_command_with_lock_cleanup\<close>, each retry meets the error again, cleans
  up again and retries again: the function has no result. (In Python the nesting of
  the calls is ended by the interpreter's recursion limit, which the function does
  not have; the method then returns the empty string after about a thousand
  retries.)
\<close>

lemma run_always_locked: "run_svn_command always_locked wd n tr = None"
  using run_never_returns_aux [of always_locked wd n tr] by (cases "run_svn_command always_locked wd n tr") auto

text \<open>
  Claim C8, on the code. A command whose first \<open>m\<close> executions fail with the lock
  error and whose next execution succeeds is executed \<open>m + 1\<close> times by one call of
  \<open>_run_svn_command\<close>: the retry is a call of the method itself, which handles a
  lock error of the retry by cleaning up and retrying once more. The number of
  retries is therefore not bounded by one.
\<close>

theorem run_svn_command_retries_unbounded:
  "run_svn_command (locked_for m out) None 0 []
     = Some (Returned (strip out), Suc m, replicate (Suc m) Command) \<and>
   executions (replicate (Suc m) Command) = Suc m"
  using run_locked_for [of 0 m m out "[]"] by (simp add: executions_def)

subsection \<open>Scheduler\<close>

lemma enabled_name_distinct:
  "distinct (map fst repos) \<Longrightarrow> (name, cfg) \<in> set repos \<Longrightarrow> notify_on_changes cfg \<Longrightarrow>
   enabled_name repos name"
  by (auto simp: enabled_name_def dest: eq_key_imp_eq_value)

lemma read_known:
  "name \<in> fst ` set repos \<Longrightarrow> get_last_recorded_revisions repos file name \<noteq> None"
  by (auto simp: get_last_recorded_revisions_def split: revision_file.splits option.splits)

lemma read_Stored:
  "(name, cfg) \<in> set repos \<Longrightarrow> m name = Some v \<Longrightarrow>
   get_last_recorded_revisions repos (Stored m) name = Some v"
  by (force simp: get_last_recorded_revisions_def)

lemma untouched_check_repo:
  assumes "untouched repos m0 st" and "repo \<in> set repos"
  shows "untouched repos m0 (check_repo env repo st)"
proof -
  obtain name cfg where repo: "repo = (name, cfg)" by (cases repo)
  show ?thesis
  proof (cases "notify_on_changes cfg")
    case True
    with assms(1) show ?thesis
      by (auto simp: untouched_def check_repo_def repo Let_def split: option.splits)
  next
    case False
    with assms(2) have ne: "\<not> enabled_name repos name"
      by (auto simp: enabled_name_def repo)
    show ?thesis
      unfolding untouched_def
    proof (intro allI impI)
      fix e assume en: "enabled_name repos e"
      with ne have neq: "e \<noteq> name" by auto
      from assms(1) en have l: "last_revisions st e = m0 e"
        and s: "e \<in> fst ` set repos \<longrightarrow>
           get_last_recorded_revisions repos (store st) e = m0 e \<and> m0 e \<noteq> None"
        by (auto simp: untouched_def)
      show "last_revisions (check_repo env repo st) e = m0 e \<and>
        (e \<in> fst ` set repos \<longrightarrow>
           get_last_recorded_revisions repos (store (check_repo env repo st)) e = m0 e \<and>
           m0 e \<noteq> None)"
        using l s neq False
        by (auto simp: check_repo_def repo Let_def save_last_revisions_def read_Stored
            split: option.splits)
    qed
  qed
qed

lemma untouched_check_repos:
  "untouched repos m0 st \<Longrightarrow> set rs \<subseteq> set repos \<Longrightarrow> untouched repos m0 (check_repos env rs st)"
  by (induction rs arbitrary: st) (auto intro: untouched_check_repo)

lemma untouched_start:
  "untouched repos (get_last_recorded_revisions repos file) (cycle_start repos file)"
  by (auto simp: untouched_def cycle_start_def read_known)


lemma agree_check_repo:
  assumes "distinct (map fst repos)" and "repo \<in> set repos" and "agree repos st st'"
  shows "agree repos (check_repo env repo st) (check_repo env repo st')"
proof -
  obtain name cfg where repo: "repo = (name, cfg)" by (cases repo)
  show ?thesis
  proof (cases "notify_on_changes cfg")
    case True
    with assms(1,2) have "enabled_name repos name"
      by (auto simp: repo intro: enabled_name_distinct)
    with assms(3) have "last_revisions st name = last_revisions st' name"
      by (simp add: agree_def)
    then have "get0 (last_revisions st) name = get0 (last_revisions st') name"
      by (simp add: get0_def)
    with assms(3) True show ?thesis
      by (auto simp: agree_def check_repo_def repo Let_def split: option.splits)
  next
    case False
    with assms(2) have ne: "\<not> enabled_name repos name"
      by (auto simp: enabled_name_def repo)
    then have "\<And>e. enabled_name repos e \<Longrightarrow> e \<noteq> name" by auto
    with assms(3) False show ?thesis
      by (auto simp: agree_def check_repo_def repo Let_def split: option.splits)
  qed
qed

lemma agree_check_repos:
  "distinct (map fst repos) \<Longrightarrow> set rs \<subseteq> set repos \<Longrightarrow> agree repos st st' \<Longrightarrow>
   agree repos (check_repos env rs st) (check_repos env rs st')"
  by (induction rs arbitrary: st st') (auto intro: agree_check_repo)

lemma read_outside:
  "name \<notin> fst ` set repos \<Longrightarrow> get_last_recorded_revisions repos file name = None"
  by (simp add: get_last_recorded_revisions_def)

lemma agree_start:
  assumes "untouched repos (get_last_recorded_revisions repos file) st"
  shows "agree repos (cycle_start repos (store st)) (cycle_start repos file)"
  unfolding agree_def cycle_start_def
proof (simp, intro allI impI)
  fix name assume en: "enabled_name repos name"
  show "get_last_recorded_revisions repos (store st) name
          = get_last_recorded_revisions repos file name"
  proof (cases "name \<in> fst ` set repos")
    case True
    with assms en show ?thesis by (simp add: untouched_def)
  next
    case False
    then show ?thesis by (simp add: read_outside)
  qed
qed

lemma store_check_repos_all_enabled:
  "\<forall>repo \<in> set rs. notify_on_changes (snd repo) \<Longrightarrow> store (check_repos env rs st) = store st"
  by (induction rs arbitrary: st)
     (auto simp: check_repo_def Let_def split: option.splits prod.splits)

text \<open>
  Claim C1. In a cycle whose single dispatch fails (a payload was collected from the
  repositories with notifications enabled, and \<open>send_email_notification\<close> did not
  return \<open>True\<close>): the dictionary in memory is the one reloaded from the file; the
  statements after the loop do not write the file, and the file is not written at
  all when every repository has notifications enabled; for every repository with
  notifications enabled the recorded revision, in the file and in memory, is the one
  the cycle started with; and a next cycle, started from the file the cycle leaves
  and run against the same remote state, collects the same pending revision ranges
  and the same payload, and fails in the same way.
\<close>

theorem failed_dispatch_keeps_watermarks:
  assumes "distinct (map fst repos)" and "dispatch_failed env repos file"
  shows "last_revisions (run_cycle env repos file)
           = get_last_recorded_revisions repos (store (run_cycle env repos file)) \<and>
         store (run_cycle env repos file)
           = store (check_repos env repos (cycle_start repos file)) \<and>
         ((\<forall>repo \<in> set repos. notify_on_changes (snd repo)) \<longrightarrow>
            store (run_cycle env repos file) = file) \<and>
         (\<forall>repo \<in> set repos. notify_on_changes (snd repo) \<longrightarrow>
            get_last_recorded_revisions repos (store (run_cycle env repos file)) (fst repo)
              = get_last_recorded_revisions repos file (fst repo) \<and>
            last_revisions (run_cycle env repos file) (fst repo)
              = get_last_recorded_revisions repos file (fst repo)) \<and>
         changes_to_update (check_repos env repos
               (cycle_start repos (store (run_cycle env repos file))))
           = changes_to_update (check_repos env repos (cycle_start repos file)) \<and>
         all_changes (check_repos env repos
               (cycle_start repos (store (run_cycle env repos file))))
           = all_changes (check_repos env repos (cycle_start repos file)) \<and>
         dispatch_failed env repos (store (run_cycle env repos file))"
proof -
  let ?checked = "check_repos env repos (cycle_start repos file)"
  let ?after = "run_cycle env repos file"
  let ?m0 = "get_last_recorded_revisions repos file"
  from assms(2) have ne: "all_changes ?checked \<noteq> []"
    and d: "dispatch env (all_changes ?checked) = Returned False \<or>
            dispatch env (all_changes ?checked) = ReturnedNone"
    by (simp_all add: dispatch_failed_def Let_def)
  have st: "store ?after = store ?checked"
    using ne d by (auto simp: run_cycle_def dispatch_phase_def Let_def)
  have mem: "last_revisions ?after = get_last_recorded_revisions repos (store ?after)"
    using ne d by (auto simp: run_cycle_def dispatch_phase_def Let_def)
  have u: "untouched repos ?m0 ?checked"
    by (rule untouched_check_repos [OF untouched_start]) simp
  have all_en: "(\<forall>repo \<in> set repos. notify_on_changes (snd repo)) \<longrightarrow> store ?after = file"
    using st by (auto simp: store_check_repos_all_enabled cycle_start_def)
  have keep: "\<forall>repo \<in> set repos. notify_on_changes (snd repo) \<longrightarrow>
            get_last_recorded_revisions repos (store ?after) (fst repo) = ?m0 (fst repo) \<and>
            last_revisions ?after (fst repo) = ?m0 (fst repo)"
  proof (intro ballI impI)
    fix repo assume r: "repo \<in> set repos" and n: "notify_on_changes (snd repo)"
    from assms(1) r n have "enabled_name repos (fst repo)"
      by (cases repo) (auto intro: enabled_name_distinct)
    moreover from r have "fst repo \<in> fst ` set repos" by simp
    ultimately have "get_last_recorded_revisions repos (store ?checked) (fst repo) = ?m0 (fst repo)"
      using u by (simp add: untouched_def)
    with st mem show "get_last_recorded_revisions repos (store ?after) (fst repo) = ?m0 (fst repo) \<and>
            last_revisions ?after (fst repo) = ?m0 (fst repo)"
      by simp
  qed
  have "agree repos (cycle_start repos (store ?checked)) (cycle_start repos file)"
    using u by (rule agree_start)
  then have ag: "agree repos (check_repos env repos (cycle_start repos (store ?after))) ?checked"
    unfolding st by (intro agree_check_repos assms(1)) simp_all
  then have ctu: "changes_to_update (check_repos env repos (cycle_start repos (store ?after)))
           = changes_to_update ?checked"
    and ac: "all_changes (check_repos env repos (cycle_start repos (store ?after)))
           = all_changes ?checked"
    by (simp_all add: agree_def)
  have again: "dispatch_failed env repos (store ?after)"
    using ne d ac by (simp add: dispatch_failed_def Let_def)
  from mem st all_en keep ctu ac again show ?thesis by blast
qed


lemma lower_True: "lower ''True'' = ''true''"
  by code_simp

lemma lower_false: "lower ''false'' = ''false''"
  by code_simp

lemma notify_demo: "notify_on_changes repo_a" "\<not> notify_on_changes repo_b"
  by (simp_all add: notify_on_changes_def repo_a_def repo_b_def sec_get_def lower_True
      lower_false)

lemma checked_failing:
  "all_changes (check_repos failing_env demo_repos (cycle_start demo_repos demo_file))
     = [demo_change\<lparr>revision := 7, repository := ''REPO_A''\<rparr>] \<and>
   changes_to_update (check_repos failing_env demo_repos (cycle_start demo_repos demo_file))
     ''REPO_A'' = Some (5, 7)"
  by (simp add: demo_repos_def check_repo_def notify_demo failing_env_def cycle_start_def
      get_last_recorded_revisions_def demo_file_def get0_def save_last_revisions_def)

text \<open>
  Two repositories recorded at revision 5 and found at revision 7, an undeliverable
  mail: \<open>REPO_A\<close> stays at 5 and its range from 5 to 7 is pending again in the next
  cycle.
\<close>

theorem failed_dispatch_keeps_watermarks_witness:
  "distinct (map fst demo_repos) \<and>
   dispatch_failed failing_env demo_repos demo_file \<and>
   (''REPO_A'', repo_a) \<in> set demo_repos \<and> notify_on_changes repo_a \<and>
   get_last_recorded_revisions demo_repos demo_file ''REPO_A'' = Some 5 \<and>
   get_last_recorded_revisions demo_repos
     (store (run_cycle failing_env demo_repos demo_file)) ''REPO_A'' = Some 5 \<and>
   last_revisions (run_cycle failing_env demo_repos demo_file) ''REPO_A'' = Some 5 \<and>
   changes_to_update (check_repos failing_env demo_repos (cycle_start demo_repos demo_file))
     ''REPO_A'' = Some (5, 7) \<and>
   changes_to_update (check_repos failing_env demo_repos
       (cycle_start demo_repos (store (run_cycle failing_env demo_repos demo_file))))
     ''REPO_A'' = Some (5, 7) \<and>
   dispatch_failed failing_env demo_repos (store (run_cycle failing_env demo_repos demo_file))"
proof -
  have h1: "distinct (map fst demo_repos)" by (simp add: demo_repos_def)
  have h2: "dispatch_failed failing_env demo_repos demo_file"
    using checked_failing by (simp add: dispatch_failed_def Let_def) (simp add: failing_env_def)
  have a: "(''REPO_A'', repo_a) \<in> set demo_repos" by (simp add: demo_repos_def)
  have r: "get_last_recorded_revisions demo_repos demo_file ''REPO_A'' = Some 5"
    by (simp add: get_last_recorded_revisions_def demo_repos_def demo_file_def)
  note t = failed_dispatch_keeps_watermarks [OF h1 h2]
  from t a notify_demo(1) r
  have k: "get_last_recorded_revisions demo_repos
     (store (run_cycle failing_env demo_repos demo_file)) ''REPO_A'' = Some 5"
    and l: "last_revisions (run_cycle failing_env demo_repos demo_file) ''REPO_A'' = Some 5"
    by force+
  from t have "changes_to_update (check_repos failing_env demo_repos
       (cycle_start demo_repos (store (run_cycle failing_env demo_repos demo_file))))
     = changes_to_update (check_repos failing_env demo_repos (cycle_start demo_repos demo_file))"
    by blast
  then have c: "changes_to_update (check_repos failing_env demo_repos
       (cycle_start demo_repos (store (run_cycle failing_env demo_repos demo_file))))
     ''REPO_A'' = Some (5, 7)"
    using checked_failing by (simp only:)
  from t have d: "dispatch_failed failing_env demo_repos
      (store (run_cycle failing_env demo_repos demo_file))" by blast
  from h1 h2 a notify_demo(1) r k l checked_failing c d show ?thesis by blast
qed

text \<open>
  Claim C2, on the code. \<open>REPO_A\<close> has notifications enabled and is recorded at
  revision 5. The hook reports revision 6 while \<open>svn log\<close> prints nothing, so that
  \<open>get_changes\<close> returns the empty list. \<open>process_commit\<close> then takes the branch written
  for repositories with notifications disabled: it records revision 6 in the file
  and hands nothing to \<open>send_email_notification\<close>. The scheduled cycle, in the same
  situation, leaves \<open>REPO_A\<close> at revision 5.
\<close>

theorem process_commit_advances_without_notification:
  "notify_on_changes repo_a \<and>
   get_last_recorded_revisions demo_repos demo_file ''REPO_A'' = Some 5 \<and>
   changes_of silent_env ''REPO_A'' 5 6 = [] \<and>
   get_last_recorded_revisions demo_repos
     (store (process_commit demo_lib silent_env demo_repos ''svn://host/a'' ''6''
               (cycle_start demo_repos demo_file))) ''REPO_A'' = Some 6 \<and>
   dispatched (process_commit demo_lib silent_env demo_repos ''svn://host/a'' ''6''
                 (cycle_start demo_repos demo_file)) = [] \<and>
   get_last_recorded_revisions demo_repos
     (store (run_cycle silent_env demo_repos demo_file)) ''REPO_A'' = Some 5"
proof -
  have c: "changes_of silent_env ''REPO_A'' 5 6 = []"
    by (simp add: silent_env_def parse_svn_log_def)
  have m: "find_matching_repo demo_repos ''svn://host/a'' = Some (''REPO_A'', repo_a)"
    by (simp add: find_matching_repo_def demo_repos_def repo_a_def startswith_def)
  have i: "int_of demo_lib ''6'' = Some 6"
    by (simp add: demo_lib_def decimal_def)
  have r: "get_last_recorded_revisions demo_repos demo_file ''REPO_A'' = Some 5"
    by (simp add: get_last_recorded_revisions_def demo_repos_def demo_file_def)
  have p: "process_commit demo_lib silent_env demo_repos ''svn://host/a'' ''6''
               (cycle_start demo_repos demo_file)
        = (cycle_start demo_repos demo_file)
            \<lparr>last_revisions := (get_last_recorded_revisions demo_repos demo_file)(''REPO_A'' \<mapsto> 6),
             store := Stored ((get_last_recorded_revisions demo_repos demo_file)(''REPO_A'' \<mapsto> 6))\<rparr>"
    using c by (simp add: process_commit_def m i get0_def r cycle_start_def Let_def
        save_last_revisions_def silent_env_def)
  have s: "store (run_cycle silent_env demo_repos demo_file) = Stored
        ((get_last_recorded_revisions demo_repos demo_file)(''REPO_B'' \<mapsto> 6))"
    by (simp add: run_cycle_def dispatch_phase_def demo_repos_def check_repo_def notify_demo
        cycle_start_def get0_def r save_last_revisions_def silent_env_def parse_svn_log_def
        get_last_recorded_revisions_def demo_file_def)
  show ?thesis
    unfolding p s using c r notify_demo(1)
    by (simp add: cycle_start_def) (simp add: get_last_recorded_revisions_def demo_repos_def)
qed

subsection \<open>RepositoryClient: pagination\<close>

declare pages.simps [simp del] collect_pages.simps [simp del]

lemma pages_cover: "concat (map (\<lambda>page. [fst page..snd page]) (pages s t)) = [s..t]"
proof (induction s t rule: pages.induct)
  case (1 s t)
  show ?case
  proof (cases "s \<le> t")
    case False
    then show ?thesis by (subst pages.simps) simp
  next
    case True
    let ?e = "min (s + 499) t"
    have "[s..t] = [s..?e] @ [?e + 1..t]"
      using True by (intro upto_split2) (auto simp: min_def)
    with True 1 show ?thesis
      by (subst pages.simps) simp
  qed
qed

lemma collect_pages_eq:
  "collect_pages src s t acc
     = acc @ concat (map (\<lambda>page. fetch_page src (fst page) (snd page)) (pages s t))"
proof (induction src s t acc rule: collect_pages.induct)
  case (1 src s t acc)
  show ?case
  proof (cases "s \<le> t")
    case False
    then show ?thesis
      by (subst collect_pages.simps, subst pages.simps) simp
  next
    case True
    have e: "min (s + page_size - 1) t = min (s + 499) t"
      by (simp add: page_size_def)
    from True 1 [OF True refl] show ?thesis
      by (subst collect_pages.simps, subst pages.simps) (simp add: e Let_def)
  qed
qed

lemma combine_logs_append:
  "combine_logs lib (xs @ ys) = combine_logs lib xs @ combine_logs lib ys"
  by (simp add: combine_logs_def)

lemma combine_logs_concat:
  "combine_logs lib (concat xss) = concat (map (combine_logs lib) xss)"
  by (induction xss) (simp_all add: combine_logs_append, simp add: combine_logs_def)

lemma concat_map_over_concat:
  "concat (map f (concat xss)) = concat (map (\<lambda>xs. concat (map f xs)) xss)"
  by (induction xss) simp_all

lemma entries_between_pages:
  "concat (map (\<lambda>page. entries_between history (fst page) (snd page)) (pages s t))
     = entries_between history s t"
proof -
  have "entries_between history s t
          = concat (map history (concat (map (\<lambda>page. [fst page..snd page]) (pages s t))))"
    by (simp add: entries_between_def pages_cover)
  also have "\<dots> = concat (map (\<lambda>page. entries_between history (fst page) (snd page)) (pages s t))"
    by (simp add: entries_between_def concat_map_over_concat comp_def)
  finally show ?thesis by simp
qed

lemma fallback_entries:
  "\<forall>r \<in> set rs. answers_revision lib src history r \<Longrightarrow>
   combine_logs lib
     (concat (map (\<lambda>rev_no. case single_log src rev_no of
                               None \<Rightarrow> []
                             | Some single \<Rightarrow> if single \<noteq> [] then [single] else []) rs))
     = concat (map history rs)"
proof (induction rs)
  case Nil
  show ?case by (simp add: combine_logs_def)
next
  case (Cons r rs)
  from Cons.prems have "answers_revision lib src history r" by simp
  then have "combine_logs lib
       (case single_log src r of
          None \<Rightarrow> []
        | Some single \<Rightarrow> if single \<noteq> [] then [single] else []) = history r"
    by (auto simp: answers_revision_def combine_logs_def split: option.splits sum.splits if_splits)
  with Cons show ?case by (simp add: combine_logs_append)
qed

lemma fetched_entries:
  assumes "page_faithful lib src history page"
  shows "combine_logs lib (fetch_page src (fst page) (snd page))
           = entries_between history (fst page) (snd page)"
proof -
  from assms obtain out where o: "range_log src (fst page) (snd page) = Some out"
    by (auto simp: page_faithful_def split: option.splits)
  show ?thesis
  proof (cases "out = []")
    case True
    with assms o have "\<forall>r \<in> set [fst page..snd page]. answers_revision lib src history r"
      by (simp add: page_faithful_def)
    from fallback_entries [OF this] o True show ?thesis
      by (simp add: fetch_page_def entries_between_def)
  next
    case False
    with assms o show ?thesis
      by (auto simp: page_faithful_def fetch_page_def combine_logs_def split: sum.splits)
  qed
qed

lemma combined_entries:
  assumes "\<forall>page \<in> set (pages s t). page_faithful lib src history page"
  shows "combine_logs lib (collect_pages src s t []) = entries_between history s t"
proof -
  have "combine_logs lib (collect_pages src s t [])
          = concat (map (\<lambda>page. combine_logs lib (fetch_page src (fst page) (snd page))) (pages s t))"
    by (simp add: collect_pages_eq combine_logs_concat comp_def)
  also have "\<dots> = concat (map (\<lambda>page. entries_between history (fst page) (snd page)) (pages s t))"
    using assms by (intro arg_cong [where f = concat] map_cong) (auto simp: fetched_entries)
  finally show ?thesis by (simp add: entries_between_pages)
qed

lemma findall_flat_root:
  assumes "\<forall>e \<in> set es. tag e = ''logentry'' \<and> findall_desc e ''logentry'' = []"
  shows "findall_desc (Element t a x es) ''logentry'' = es"
  using assms
proof (induction es)
  case Nil
  then show ?case by (simp add: findall_desc_def)
next
  case (Cons e es)
  then show ?case by (simp add: findall_desc_def)
qed

lemma children_descendants: "set (children root) \<subseteq> set (descendants root)"
  by (cases root) auto

lemma logentries_findall: "logentries root = findall_desc root ''logentry''"
proof (cases "findall_desc root ''logentry'' = []")
  case False
  then show ?thesis by (simp add: logentries_def)
next
  case True
  then have "\<forall>c \<in> set (descendants root). tag c \<noteq> ''logentry''"
    by (auto simp: findall_desc_def filter_empty_conv)
  with children_descendants [of root]
  have "filter (\<lambda>child. tag child = ''logentry'') (children root) = []"
    by (auto simp: filter_empty_conv)
  with True show ?thesis by (simp add: logentries_def)
qed

lemma flat_entries_between:
  "flat_history history a b \<Longrightarrow>
   \<forall>e \<in> set (entries_between history a b). tag e = ''logentry'' \<and> findall_desc e ''logentry'' = []"
  by (auto simp: flat_history_def entries_between_def)

lemma parse_svn_log_of_root:
  assumes "strip xml_log \<noteq> []" and "fromstring lib (strip xml_log) = Inr root"
  shows "parse_svn_log lib clk xml_log repo
           = parse_entries lib clk repo 0 (findall_desc root ''logentry'')"
proof -
  from assms(1) have "xml_log \<noteq> []" by (auto simp: strip_def)
  with assms show ?thesis
    by (simp add: parse_svn_log_def recover_root_def logentries_findall)
qed


text \<open>
  Claim C9. Let the repository have a history without nested log entries, let the
  source answer every page of the range (by its range query, or by the queries for
  the single revisions when the range query prints nothing) and the query for the
  whole range, and let the library read back the document it writes for the
  collected entries. Then the output of \<open>_get_paginated_svn_log\<close> parses to the same
  list of change records as the output of the single query for the whole range: the
  records of the entries of the revisions from \<open>from_revision\<close> to \<open>to_revision\<close>, each
  once, in order. The pages are those of \<open>pages\<close>, whose ranges concatenate to the
  whole range (\<open>pages_cover\<close>), so that no revision is read twice or left out at a
  page boundary.
\<close>

theorem pagination_fidelity:
  assumes "repo_url repo_config \<noteq> []"
    and "flat_history history from_revision to_revision"
    and "\<forall>page \<in> set (pages from_revision to_revision). page_faithful lib src history page"
    and "range_log src from_revision to_revision = Some whole"
    and "strip whole \<noteq> []"
    and "fromstring lib (strip whole) = Inr whole_root"
    and "findall_desc whole_root ''logentry'' = entries_between history from_revision to_revision"
    and "strip (tostring lib (Element ''log'' [] None
                  (entries_between history from_revision to_revision))) \<noteq> []"
    and "fromstring lib (strip (tostring lib (Element ''log'' [] None
                  (entries_between history from_revision to_revision))))
           = Inr (Element ''log'' [] None (entries_between history from_revision to_revision))"
  shows "parse_svn_log lib clk
           (get_paginated_svn_log lib src repo_config from_revision to_revision) repo
         = parse_svn_log lib clk whole repo \<and>
         parse_svn_log lib clk
           (get_paginated_svn_log lib src repo_config from_revision to_revision) repo
         = parse_entries lib clk repo 0 (entries_between history from_revision to_revision)"
proof -
  let ?es = "entries_between history from_revision to_revision"
  let ?logs = "collect_pages src from_revision to_revision []"
  have w: "parse_svn_log lib clk whole repo = parse_entries lib clk repo 0 ?es"
    using parse_svn_log_of_root [OF assms(5,6)] assms(7) by simp
  have c: "combine_logs lib ?logs = ?es"
    using assms(3) by (rule combined_entries)
  have p: "parse_svn_log lib clk
           (get_paginated_svn_log lib src repo_config from_revision to_revision) repo
         = parse_entries lib clk repo 0 ?es"
  proof (cases "?logs = []")
    case True
    with c have "?es = []" by (simp add: combine_logs_def)
    with True assms(1) show ?thesis
      by (simp add: get_paginated_svn_log_def parse_svn_log_def)
  next
    case False
    with assms(1) have out: "get_paginated_svn_log lib src repo_config from_revision to_revision
        = tostring lib (Element ''log'' [] None ?es)"
      by (simp add: get_paginated_svn_log_def c)
    have "findall_desc (Element ''log'' [] None ?es) ''logentry'' = ?es"
      by (rule findall_flat_root) (rule flat_entries_between [OF assms(2)])
    with parse_svn_log_of_root [OF assms(8,9)] show ?thesis
      unfolding out by simp
  qed
  from p w show ?thesis by simp
qed

lemma concat_map_single_hit:
  assumes "\<And>r. r \<noteq> a \<Longrightarrow> lo \<le> r \<Longrightarrow> r \<le> hi \<Longrightarrow> f r = []" and "lo \<le> a" and "a \<le> hi"
  shows "concat (map f [lo..hi]) = f a"
proof -
  have s: "[lo..hi] = [lo..a - 1] @ a # [a + 1..hi]"
    using assms(2,3) by (rule upto_split3)
  have l: "concat (map f [lo..a - 1]) = []"
    using assms by simp
  have r: "concat (map f [a + 1..hi]) = []"
    using assms by simp
  show ?thesis unfolding s by (simp add: l r)
qed

lemma pages_demo: "pages 1 600 = [(1, 500), (501, 600)]"
  by (simp add: pages.simps)

lemma paged_first: "entries_between paged_history 1 500 = [entry_rev ''1'']"
proof -
  have "concat (map paged_history [1..500]) = paged_history 1"
    by (rule concat_map_single_hit) (simp_all add: paged_history_def)
  then show ?thesis by (simp add: entries_between_def paged_history_def)
qed

lemma paged_late: "entries_between paged_history 501 600 = [entry_rev ''501'']"
proof -
  have "concat (map paged_history [501..600]) = paged_history 501"
    by (rule concat_map_single_hit) (simp_all add: paged_history_def)
  then show ?thesis by (simp add: entries_between_def paged_history_def)
qed

lemma paged_both: "entries_between paged_history 1 600 = [entry_rev ''1'', entry_rev ''501'']"
  using entries_between_pages [of paged_history 1 600]
  by (simp add: pages_demo paged_first paged_late)

lemma xml_distinct: "first_xml \<noteq> late_xml" "first_xml \<noteq> both_xml" "late_xml \<noteq> both_xml"
  "late_xml \<noteq> first_xml" "both_xml \<noteq> first_xml" "both_xml \<noteq> late_xml"
  "first_xml \<noteq> []" "late_xml \<noteq> []" "both_xml \<noteq> []"
  by (simp_all add: first_xml_def late_xml_def both_xml_def)

lemma page_faithful_demo:
  "page_faithful paging_lib paged_source paged_history (1, 500)"
  "page_faithful paging_lib paged_source paged_history (501, 600)"
  by (auto simp: page_faithful_def answers_revision_def paged_source_def paged_history_def
      paged_late paging_lib_def paging_fromstring_def xml_distinct findall_desc_def
      entry_rev_def leaf_def)

text \<open>
  The range from 1 to 600 is read in two pages; the first page prints nothing and is
  read revision by revision.
\<close>

theorem pagination_fidelity_witness:
  "repo_url repo_a \<noteq> [] \<and>
   flat_history paged_history 1 600 \<and>
   pages 1 600 = [(1, 500), (501, 600)] \<and>
   page_faithful paging_lib paged_source paged_history (1, 500) \<and>
   page_faithful paging_lib paged_source paged_history (501, 600) \<and>
   range_log paged_source 1 600 = Some both_xml \<and>
   fromstring paging_lib (strip both_xml) = Inr both_root \<and>
   findall_desc both_root ''logentry'' = entries_between paged_history 1 600 \<and>
   parse_svn_log paging_lib morning
     (get_paginated_svn_log paging_lib paged_source repo_a 1 600) ''REPO_A''
     = parse_svn_log paging_lib morning both_xml ''REPO_A'' \<and>
   map revision (parse_svn_log paging_lib morning
     (get_paginated_svn_log paging_lib paged_source repo_a 1 600) ''REPO_A'') = [1, 501]"
proof -
  have h1: "repo_url repo_a \<noteq> []"
    by (simp add: repo_url_def repo_a_def sec_get_def)
  have h2: "flat_history paged_history 1 600"
    by (auto simp: flat_history_def paged_history_def entry_rev_def leaf_def findall_desc_def)
  have h3: "\<forall>page \<in> set (pages 1 600). page_faithful paging_lib paged_source paged_history page"
    by (simp add: pages_demo page_faithful_demo)
  have h4: "range_log paged_source 1 600 = Some both_xml"
    by (simp add: paged_source_def)
  have sb: "strip both_xml = both_xml"
    by (simp add: both_xml_def strip_def isspace_def)
  have h5: "strip both_xml \<noteq> []"
    by (simp add: sb xml_distinct)
  have h6: "fromstring paging_lib (strip both_xml) = Inr both_root"
    by (simp add: sb paging_lib_def paging_fromstring_def xml_distinct)
  have h7: "findall_desc both_root ''logentry'' = entries_between paged_history 1 600"
    by (simp add: paged_both both_root_def findall_desc_def entry_rev_def leaf_def)
  have t: "tostring paging_lib (Element ''log'' [] None (entries_between paged_history 1 600))
             = both_xml"
    by (simp add: paging_lib_def)
  have h8: "strip (tostring paging_lib (Element ''log'' [] None
                  (entries_between paged_history 1 600))) \<noteq> []"
    unfolding t by (rule h5)
  have h9: "fromstring paging_lib (strip (tostring paging_lib (Element ''log'' [] None
                  (entries_between paged_history 1 600))))
           = Inr (Element ''log'' [] None (entries_between paged_history 1 600))"
    unfolding t using h6 by (simp add: paged_both both_root_def)
  note f = pagination_fidelity [OF h1 h2 h3 h4 h5 h6 h7 h8 h9, of morning "''REPO_A''"]
  have r: "map revision (parse_entries paging_lib morning ''REPO_A'' 0
              (entries_between paged_history 1 600)) = [1, 501]"
    by (simp add: paged_both parse_entry_def entry_revision_def attr_get_def entry_rev_def
        paging_lib_def decimal_def)
  from f have e1: "parse_svn_log paging_lib morning
     (get_paginated_svn_log paging_lib paged_source repo_a 1 600) ''REPO_A''
     = parse_svn_log paging_lib morning both_xml ''REPO_A''"
    and e2: "parse_svn_log paging_lib morning
     (get_paginated_svn_log paging_lib paged_source repo_a 1 600) ''REPO_A''
     = parse_entries paging_lib morning ''REPO_A'' 0 (entries_between paged_history 1 600)"
    by blast+
  have r': "map revision (parse_svn_log paging_lib morning
     (get_paginated_svn_log paging_lib paged_source repo_a 1 600) ''REPO_A'') = [1, 501]"
    unfolding e2 by (rule r)
  from e1 r' h1 h2 pages_demo page_faithful_demo h4 h6 h7 show ?thesis by blast
qed


end
